theory Spec2Isabelle
  imports Complex_Main "HOL-Library.Sublist" "HOL-Library.Code_Target_Nat"
begin

section \<open>Strings and character classes\<close>

text \<open>
  A Python \<open>str\<close> is a sequence of Unicode code points; \<open>len\<close>, slicing, \<open>find\<close> and the
  offsets of \<open>re\<close> matches all count code points. A string is therefore a list of code
  points, and \<open>py\<close> reads an ASCII literal as such a list.
\<close>

type_synonym pystr = "nat list"

definition py :: "string \<Rightarrow> pystr" where
  "py s = map of_char s"

text \<open>
  \<open>str.lower()\<close>, one code point at a time. The table covers U+0000..U+00FF (ASCII and
  Latin-1: \<open>A-Z\<close>, and \<open>U+00C0..U+00DE\<close> without the multiplication sign); code points
  above that range are left as they are.
\<close>

definition lower_cp :: "nat \<Rightarrow> nat" where
  "lower_cp c =
     (if 65 \<le> c \<and> c \<le> 90 then c + 32
      else if 192 \<le> c \<and> c \<le> 222 \<and> c \<noteq> 215 then c + 32
      else c)"

definition lower :: "pystr \<Rightarrow> pystr" where
  "lower s = map lower_cp s"

definition endswith :: "pystr \<Rightarrow> pystr \<Rightarrow> bool" where
  "endswith w suf \<longleftrightarrow> length suf \<le> length w \<and> drop (length w - length suf) w = suf"

section \<open>The lemmatizer\<close>

definition suf_list :: "pystr list" where
  "suf_list = map py [''ing'', ''ed'', ''es'', ''s'', ''ion'', ''ation'', ''ment'',
                      ''ability'', ''ization'']"

text \<open>
  The \<open>for suf in suf_list\<close> loop of \<open>lightweight_lemma\<close>: the first suffix that ends
  \<open>w\<close> and leaves more than two characters is cut off (\<open>w[:-len(suf)]\<close>) and returned;
  when the list is exhausted \<open>w\<close> is returned.
\<close>

fun strip_first :: "pystr \<Rightarrow> pystr list \<Rightarrow> pystr" where
  "strip_first w [] = w"
| "strip_first w (suf # rest) =
     (if endswith w suf \<and> length w > length suf + 2
      then take (length w - length suf) w
      else strip_first w rest)"

definition lightweight_lemma :: "pystr \<Rightarrow> pystr" where
  "lightweight_lemma word = (let w = lower word in strip_first w suf_list)"

section \<open>Regular expressions\<close>

text \<open>
  The character classes of \<open>re\<close> on \<open>str\<close> patterns. \<open>\s\<close> is the whitespace of
  \<open>str.isspace\<close> (also what \<open>split()\<close> and \<open>strip()\<close> use); the table is complete.
  \<open>\w\<close> is an alphanumeric code point or the underscore; the table covers
  U+0000..U+00FF, and code points above that range count as non-word characters.
\<close>

definition is_space :: "nat \<Rightarrow> bool" where
  "is_space c \<longleftrightarrow>
     (9 \<le> c \<and> c \<le> 13) \<or> (28 \<le> c \<and> c \<le> 32) \<or> c = 133 \<or> c = 160 \<or> c = 5760 \<or>
     (8192 \<le> c \<and> c \<le> 8202) \<or> c = 8232 \<or> c = 8233 \<or> c = 8239 \<or> c = 8287 \<or>
     c = 12288"

definition is_word :: "nat \<Rightarrow> bool" where
  "is_word c \<longleftrightarrow>
     (48 \<le> c \<and> c \<le> 57) \<or> (65 \<le> c \<and> c \<le> 90) \<or> c = 95 \<or> (97 \<le> c \<and> c \<le> 122) \<or>
     c = 170 \<or> c = 178 \<or> c = 179 \<or> c = 181 \<or> c = 185 \<or> c = 186 \<or>
     (188 \<le> c \<and> c \<le> 190) \<or> (192 \<le> c \<and> c \<le> 214) \<or> (216 \<le> c \<and> c \<le> 246) \<or>
     (248 \<le> c \<and> c \<le> 255)"

text \<open>The class \<open>[\w\-]\<close> of the token patterns.\<close>

definition is_tokch :: "nat \<Rightarrow> bool" where
  "is_tokch c \<longleftrightarrow> is_word c \<or> c = 45"

text \<open>
  The patterns the program compiles are built from these pieces only (a capturing group
  changes nothing here, since only \<open>group(0)\<close>, \<open>start()\<close> and \<open>end()\<close> are read;
  \<open>\s*\<close> is \<open>Opt Spaces\<close>):
  \<^item> \<open>Lit s\<close>: the escaped literal \<open>re.escape(s)\<close>, under \<open>re.IGNORECASE\<close>;
  \<^item> \<open>Chr c\<close>: the character \<open>c\<close> in a pattern compiled without flags;
  \<^item> \<open>Spaces\<close>: \<open>\s+\<close>;
  \<^item> \<open>TokChars m\<close>: \<open>[\w\-]{m,}\<close> (\<open>[\w\-]+\<close> is \<open>TokChars 1\<close>);
  \<^item> \<open>Seq\<close>, \<open>Alt\<close> (\<open>a|b\<close>), \<open>Opt\<close> (\<open>(?:a)?\<close>), \<open>Eps\<close> (the empty pattern);
  \<^item> \<open>NotWordBehind\<close>: \<open>(?<!\w)\<close>, \<open>NotWordAhead\<close>: \<open>(?!\w)\<close>, \<open>WordBoundary\<close>: \<open>\b\<close>.
\<close>

datatype regex =
    Eps
  | Lit pystr
  | Chr nat
  | Spaces
  | TokChars nat
  | Seq regex regex
  | Alt regex regex
  | Opt regex
  | NotWordBehind
  | NotWordAhead
  | WordBoundary

definition word_before :: "pystr \<Rightarrow> nat \<Rightarrow> bool" where
  "word_before t i \<longleftrightarrow> 0 < i \<and> i \<le> length t \<and> is_word (t ! (i - 1))"

definition word_at :: "pystr \<Rightarrow> nat \<Rightarrow> bool" where
  "word_at t i \<longleftrightarrow> i < length t \<and> is_word (t ! i)"

text \<open>
  The backtracking matcher: \<open>ends t r i\<close> lists the positions at which a match of \<open>r\<close>
  that starts at \<open>i\<close> can end, in the order in which the engine tries them (greedy
  repetition from the longest run down, the alternatives of \<open>|\<close> from left to right, an
  optional group before its omission). The engine takes the first one the rest of the
  pattern accepts.
\<close>

fun ends :: "pystr \<Rightarrow> regex \<Rightarrow> nat \<Rightarrow> nat list" where
  "ends t Eps i = [i]"
| "ends t (Lit s) i =
     (if i + length s \<le> length t \<and> lower (take (length s) (drop i t)) = lower s
      then [i + length s] else [])"
| "ends t (Chr c) i = (if i < length t \<and> t ! i = c then [Suc i] else [])"
| "ends t Spaces i =
     (let n = length (takeWhile is_space (drop i t))
      in map (\<lambda>k. i + k) (rev [1..<Suc n]))"
| "ends t (TokChars m) i =
     (let n = length (takeWhile is_tokch (drop i t))
      in map (\<lambda>k. i + k) (rev [m..<Suc n]))"
| "ends t (Seq r1 r2) i = concat (map (ends t r2) (ends t r1 i))"
| "ends t (Alt r1 r2) i = ends t r1 i @ ends t r2 i"
| "ends t (Opt r) i = ends t r i @ [i]"
| "ends t NotWordBehind i = (if word_before t i then [] else [i])"
| "ends t NotWordAhead i = (if word_at t i then [] else [i])"
| "ends t WordBoundary i = (if word_before t i \<noteq> word_at t i then [i] else [])"

text \<open>
  A match attempt at \<open>i\<close>. After an empty match the scanner retries at the same
  position and refuses an empty match there (\<open>must_advance\<close>). No end lies before
  its start, so the bound \<open>i \<le> e\<close> removes nothing; it makes the progress of the scan
  visible to the termination argument below.
\<close>

definition match_at :: "pystr \<Rightarrow> regex \<Rightarrow> nat \<Rightarrow> bool \<Rightarrow> nat option" where
  "match_at t r i must_advance =
     (case filter (\<lambda>e. i \<le> e \<and> \<not> (must_advance \<and> e = i)) (ends t r i) of
        [] \<Rightarrow> None
      | e # _ \<Rightarrow> Some e)"

text \<open>
  \<open>pattern.finditer(text)\<close>: the non-overlapping matches from left to right, each as
  \<open>(start, end)\<close>. The next search starts where the last match ended.
\<close>

function finditer_from :: "pystr \<Rightarrow> regex \<Rightarrow> nat \<Rightarrow> bool \<Rightarrow> (nat \<times> nat) list" where
  "finditer_from t r i must_advance =
     (if length t < i then []
      else case match_at t r i must_advance of
             Some e \<Rightarrow> (i, e) # finditer_from t r e (e = i)
           | None \<Rightarrow> finditer_from t r (Suc i) False)"
  by pat_completeness auto
termination
proof (relation "measure (\<lambda>(t, r, i, adv). 2 * (Suc (length t) - i) + (if adv then 0 else 1))")
  show "wf (measure (\<lambda>(t, r, i, adv). 2 * (Suc (length t) - i) + (if adv then 0 else 1)))"
    by simp
next
  fix t :: pystr and r i must_advance e
  assume a: "\<not> length t < i" "match_at t r i must_advance = Some e"
  let ?ok = "\<lambda>e. i \<le> e \<and> \<not> (must_advance \<and> e = i)"
  from a(2) obtain es where "filter ?ok (ends t r i) = e # es"
    unfolding match_at_def by (cases "filter ?ok (ends t r i)") simp_all
  then have "e \<in> set (filter ?ok (ends t r i))"
    by (simp del: filter.simps set_filter)
  then have "i \<le> e" "\<not> (must_advance \<and> e = i)" by simp_all
  with a(1) show "((t, r, e, e = i), t, r, i, must_advance)
      \<in> measure (\<lambda>(t, r, i, adv). 2 * (Suc (length t) - i) + (if adv then 0 else 1))"
    by auto
next
  fix t :: pystr and r :: regex and i must_advance
  assume "\<not> length t < i"
  then show "((t, r, Suc i, False), t, r, i, must_advance)
      \<in> measure (\<lambda>(t, r, i, adv). 2 * (Suc (length t) - i) + (if adv then 0 else 1))"
    by auto
qed

definition finditer :: "regex \<Rightarrow> pystr \<Rightarrow> (nat \<times> nat) list" where
  "finditer r t = finditer_from t r 0 False"

text \<open>The slice \<open>text[s:e]\<close>, which is \<open>match.group(0)\<close> for a match from \<open>s\<close> to \<open>e\<close>.\<close>

definition slice :: "pystr \<Rightarrow> nat \<Rightarrow> nat \<Rightarrow> pystr" where
  "slice t s e = take (e - s) (drop s t)"

definition findall :: "regex \<Rightarrow> pystr \<Rightarrow> pystr list" where
  "findall r t = map (\<lambda>(s, e). slice t s e) (finditer r t)"

text \<open>
  \<open>re.sub(pattern, repl, text)\<close> for a replacement without group references: the text
  between the matches is kept and every match gives way to \<open>repl\<close>.
\<close>

fun splice :: "pystr \<Rightarrow> pystr \<Rightarrow> nat \<Rightarrow> (nat \<times> nat) list \<Rightarrow> pystr" where
  "splice repl t pos [] = drop pos t"
| "splice repl t pos ((s, e) # ms) = slice t pos s @ repl @ splice repl t e ms"

definition re_sub :: "regex \<Rightarrow> pystr \<Rightarrow> pystr \<Rightarrow> pystr" where
  "re_sub r repl t = splice repl t 0 (finditer r t)"

text \<open>\<open>text.strip()\<close>\<close>

definition strip :: "pystr \<Rightarrow> pystr" where
  "strip s = rev (dropWhile is_space (rev (dropWhile is_space s)))"

section \<open>The libraries the program calls\<close>

text \<open>
  The Unicode database (\<open>unicodedata\<close>), \<open>rapidfuzz\<close> and \<open>difflib\<close> are not part of the
  repository. The program reaches them through six entry points, which the model takes as
  a parameter:
  \<^item> \<open>nfkc\<close>, \<open>nfkd\<close>: \<open>unicodedata.normalize\<close> with the form \<open>NFKC\<close>, \<open>NFKD\<close>;
  \<^item> \<open>combining c\<close>: \<open>unicodedata.combining(c)\<close> is not zero;
  \<^item> \<open>HAS_FUZZ\<close>: whether \<open>import rapidfuzz\<close> succeeded;
  \<^item> \<open>fuzz_ratio\<close>: \<open>rapidfuzz.fuzz.ratio\<close>, a score from 0 to 100;
  \<^item> \<open>seq_ratio a b\<close>: \<open>difflib.SequenceMatcher(None, a, b).ratio()\<close>, from 0 to 1.
  Scores are rational numbers: the comparison \<open>sim >= 88\<close> is read exactly.
\<close>

record pylib =
  nfkc :: "pystr \<Rightarrow> pystr"
  nfkd :: "pystr \<Rightarrow> pystr"
  combining :: "nat \<Rightarrow> bool"
  HAS_FUZZ :: bool
  fuzz_ratio :: "pystr \<Rightarrow> pystr \<Rightarrow> rat"
  seq_ratio :: "pystr \<Rightarrow> pystr \<Rightarrow> rat"

definition fuzzy_similarity :: "pylib \<Rightarrow> pystr \<Rightarrow> pystr \<Rightarrow> rat" where
  "fuzzy_similarity L a b = seq_ratio L a b * 100"

text \<open>\<open>fuzz.ratio(wn, target) if HAS_FUZZ else fuzzy_similarity(wn, target)\<close>\<close>

definition similarity :: "pylib \<Rightarrow> pystr \<Rightarrow> pystr \<Rightarrow> rat" where
  "similarity L wn target =
     (if HAS_FUZZ L then fuzz_ratio L wn target else fuzzy_similarity L wn target)"

text \<open>\<open>s.replace(a, b)\<close> for one-character strings \<open>a\<close> and \<open>b\<close>, and \<open>s.replace(a, '')\<close>.\<close>

definition replace_cp :: "nat \<Rightarrow> nat \<Rightarrow> pystr \<Rightarrow> pystr" where
  "replace_cp a b s = map (\<lambda>c. if c = a then b else c) s"

definition remove_cp :: "nat \<Rightarrow> pystr \<Rightarrow> pystr" where
  "remove_cp a s = filter (\<lambda>c. c \<noteq> a) s"

text \<open>
  \<open>normalize_text_for_matching\<close>. The first file (\<open>annotate_doccano_v2.py\<close>, suffix
  \<open>_v2\<close>) also turns U+2019 into an apostrophe; the second
  (\<open>annotate_doccano_v2 copy.py\<close>, suffix \<open>_copy\<close>) does not.
\<close>

definition normalize_text_for_matching_v2 :: "pylib \<Rightarrow> pystr \<Rightarrow> pystr" where
  "normalize_text_for_matching_v2 L text =
     (let text = nfkd L text;
          text = replace_cp 8217 39 text;
          text = filter (\<lambda>c. \<not> combining L c) text
      in lower text)"

definition normalize_text_for_matching_copy :: "pylib \<Rightarrow> pystr \<Rightarrow> pystr" where
  "normalize_text_for_matching_copy L text =
     (let text = nfkd L text;
          text = filter (\<lambda>c. \<not> combining L c) text
      in lower text)"

section \<open>The normalizer\<close>

text \<open>
  \<open>clean_text\<close>, the same in both files, in three parts: the replacements before the
  Unicode normalisation (U+FEFF and U+200B dropped, U+00A0 to a space), \<open>NFKC\<close>, and the
  rest (curly quotes U+201C, U+201D to \<open>"\<close>, the em dash U+2014 to \<open>-\<close>,
  \<open>re.sub(r'\s*-\s*', '-', text)\<close>, \<open>re.sub(r'\s+', ' ', text)\<close>, \<open>strip()\<close>).
\<close>

definition clean_head :: "pystr \<Rightarrow> pystr" where
  "clean_head text = replace_cp 160 32 (remove_cp 8203 (remove_cp 65279 text))"

definition hyphen_pattern :: regex where
  "hyphen_pattern = Seq (Opt Spaces) (Seq (Chr 45) (Opt Spaces))"

definition clean_tail :: "pystr \<Rightarrow> pystr" where
  "clean_tail text =
     (let text = replace_cp 8212 45 (replace_cp 8221 34 (replace_cp 8220 34 text));
          text = re_sub hyphen_pattern [45] text;
          text = re_sub Spaces [32] text
      in strip text)"

definition clean_text :: "pylib \<Rightarrow> pystr \<Rightarrow> pystr" where
  "clean_text L text =
     (let text = clean_head text;
          text = nfkc L text
      in clean_tail text)"

section \<open>The pattern builder\<close>

text \<open>\<open>term.split()\<close>: the maximal runs of non-whitespace characters.\<close>

function str_split :: "pystr \<Rightarrow> pystr list" where
  "str_split s =
     (let s' = dropWhile is_space s
      in if s' = [] then []
         else takeWhile (\<lambda>x. \<not> is_space x) s'
              # str_split (dropWhile (\<lambda>x. \<not> is_space x) s'))"
  by pat_completeness auto
termination
proof (relation "measure length")
  show "wf (measure length)" by simp
next
  fix s s' :: pystr
  assume a: "s' = dropWhile is_space s" "s' \<noteq> []"
  from a(2) obtain c cs where s': "s' = c # cs"
    using list.exhaust by blast
  with a(1) have "\<not> is_space c"
    by (metis hd_dropWhile list.sel(1) list.distinct(1))
  with s' have "dropWhile (\<lambda>x. \<not> is_space x) s' = dropWhile (\<lambda>x. \<not> is_space x) cs"
    by simp
  moreover have "length (dropWhile (\<lambda>x. \<not> is_space x) cs) \<le> length cs"
    by (rule length_dropWhile_le)
  moreover have "length s' \<le> length s"
    unfolding a(1) by (rule length_dropWhile_le)
  ultimately show "(dropWhile (\<lambda>x. \<not> is_space x) s', s) \<in> measure length"
    using s' by simp
qed

text \<open>\<open>r'\s+'.join(escaped_words)\<close>\<close>

fun join_spaces :: "regex list \<Rightarrow> regex" where
  "join_spaces [] = Eps"
| "join_spaces [r] = r"
| "join_spaces (r # rs) = Seq r (Seq Spaces (join_spaces rs))"

fun alts :: "regex list \<Rightarrow> regex" where
  "alts [] = Eps"
| "alts [r] = r"
| "alts (r # rs) = Alt r (alts rs)"

text \<open>\<open>(?:s|es|ing|ed|ion|ation|ment|ability|ization)?\<close>\<close>

definition suffix_group :: regex where
  "suffix_group =
     Opt (alts (map (\<lambda>s. Lit (py s))
       [''s'', ''es'', ''ing'', ''ed'', ''ion'', ''ation'', ''ment'', ''ability'',
        ''ization'']))"

definition build_flexible_pattern_v2 :: "pystr \<Rightarrow> regex" where
  "build_flexible_pattern_v2 term =
     (let words = str_split term;
          escaped_words = map (\<lambda>w. Lit (lightweight_lemma w)) words;
          base_pattern = join_spaces escaped_words
      in if length term < 6
         then Seq NotWordBehind (Seq base_pattern NotWordAhead)
         else Seq NotWordBehind (Seq base_pattern (Seq suffix_group NotWordAhead)))"

definition EXCLUDE_SUFFIX_TERMS :: "pystr set" where
  "EXCLUDE_SUFFIX_TERMS = {py ''note'', py ''text'', py ''data'', py ''info'', py ''section''}"

text \<open>
  The second file defines \<open>build_flexible_pattern\<close> twice. \<open>PRECOMPILED\<close> is filled
  between the two definitions, so its patterns come from the first one.
\<close>

definition build_flexible_pattern_copy :: "pystr \<Rightarrow> regex" where
  "build_flexible_pattern_copy term =
     (let base = Lit term;
          lemma = Lit (lightweight_lemma term)
      in if lower term \<in> EXCLUDE_SUFFIX_TERMS
         then Seq NotWordBehind (Seq (Alt base lemma) NotWordAhead)
         else Seq NotWordBehind (Seq (Alt base lemma) (Seq suffix_group NotWordAhead)))"

text \<open>The second definition, which no entry of \<open>PRECOMPILED\<close> is built with.\<close>

definition build_flexible_pattern_copy2 :: "pystr \<Rightarrow> regex option" where
  "build_flexible_pattern_copy2 term =
     (if length term < 3 then None
      else let base = Lit term;
               lemma = Lit (lightweight_lemma term)
           in Some (Seq NotWordBehind (Seq (Alt base lemma) (Seq suffix_group NotWordAhead))))"

section \<open>The dictionary index\<close>

text \<open>
  \<open>CATEGORIES\<close> is the loaded JSON object: category names with their terms, in load
  order. \<open>sorted(terms, key=len, reverse=True)\<close> is stable, as \<open>sort_key\<close> is.
\<close>

type_synonym categories = "(pystr \<times> pystr list) list"

definition sorted_by_len_desc :: "pystr list \<Rightarrow> pystr list" where
  "sorted_by_len_desc terms = sort_key (\<lambda>x. - int (length x)) terms"

definition MIN_TERM_LEN :: nat where
  "MIN_TERM_LEN = 2"

definition PRECOMPILED_v2 :: "categories \<Rightarrow> (pystr \<times> (pystr \<times> regex) list) list" where
  "PRECOMPILED_v2 CATEGORIES =
     map (\<lambda>(category, terms).
            let filtered_terms = filter (\<lambda>t. MIN_TERM_LEN \<le> length t) terms;
                terms_sorted = sorted_by_len_desc filtered_terms
            in (category, map (\<lambda>term. (term, build_flexible_pattern_v2 term)) terms_sorted))
         CATEGORIES"

text \<open>
  In the second file the pattern of an entry may be \<open>None\<close> as far as \<open>annotate_text\<close>
  is concerned (it tests for it), so an entry holds an optional pattern.
\<close>

definition PRECOMPILED_copy :: "categories \<Rightarrow> (pystr \<times> (pystr \<times> regex option) list) list" where
  "PRECOMPILED_copy CATEGORIES =
     map (\<lambda>(category, terms).
            let terms_sorted = sorted_by_len_desc terms
            in (category,
                map (\<lambda>term. (term, Some (build_flexible_pattern_copy term))) terms_sorted))
         CATEGORIES"

section \<open>The span matcher\<close>

type_synonym span = "int \<times> int"
type_synonym annotation = "int \<times> int \<times> pystr"

text \<open>
  The test both passes make before they accept \<open>span_range\<close>:
  \<open>any(s <= span_range[0] < e or s < span_range[1] <= e for s, e in used_spans)\<close>.
\<close>

definition occupied :: "span set \<Rightarrow> span \<Rightarrow> bool" where
  "occupied used_spans span_range \<longleftrightarrow>
     (\<exists>(s, e) \<in> used_spans.
        (s \<le> fst span_range \<and> fst span_range < e) \<or> (s < snd span_range \<and> snd span_range \<le> e))"

text \<open>\<open>list(dict.fromkeys(words))\<close>: the distinct words in the order of their first
  occurrence.\<close>

definition dict_fromkeys :: "pystr list \<Rightarrow> pystr list" where
  "dict_fromkeys words = fold (\<lambda>w keys. if w \<in> set keys then keys else keys @ [w]) words []"

text \<open>\<open>haystack.find(needle)\<close>: the first index at which \<open>needle\<close> starts, or \<open>-1\<close>.\<close>

fun find_from :: "pystr \<Rightarrow> pystr \<Rightarrow> nat \<Rightarrow> int" where
  "find_from [] needle i = (if needle = [] then int i else - 1)"
| "find_from (c # cs) needle i =
     (if prefix needle (c # cs) then int i else find_from cs needle (Suc i))"

definition find :: "pystr \<Rightarrow> pystr \<Rightarrow> int" where
  "find haystack needle = find_from haystack needle 0"

definition MIN_FUZZY_LEN :: nat where
  "MIN_FUZZY_LEN = 6"

subsection \<open>First file: \<open>annotate_doccano_v2.py\<close>\<close>

text \<open>\<open>\b[\w\-]+\b\<close>\<close>

definition token_pattern_v2 :: regex where
  "token_pattern_v2 = Seq WordBoundary (Seq (TokChars 1) WordBoundary)"

text \<open>
  The loop \<open>for match in pattern.finditer(text)\<close>, over the matches still to come. The
  state is \<open>(annotations, used_spans, matched_here)\<close>.
\<close>

fun exact_pass_v2 ::
  "pystr \<Rightarrow> pystr \<Rightarrow> pystr \<Rightarrow> (nat \<times> nat) list \<Rightarrow>
   annotation list \<times> span set \<times> bool \<Rightarrow> annotation list \<times> span set \<times> bool" where
  "exact_pass_v2 text category original_term [] st = st"
| "exact_pass_v2 text category original_term ((m_start, m_end) # rest)
       (annotations, used_spans, matched_here) =
     (let span_range = (int m_start, int m_end)
      in if occupied used_spans span_range
         then exact_pass_v2 text category original_term rest
                (annotations, used_spans, matched_here)
         else let matched_word = slice text m_start m_end
              in if lower matched_word = lower original_term
                 then exact_pass_v2 text category original_term rest
                        (annotations @ [(int m_start, int m_end, category)],
                         insert span_range used_spans, True)
                 else exact_pass_v2 text category original_term rest
                        (annotations, used_spans, matched_here))"

text \<open>
  The loop \<open>for w in words_unique\<close>, over the words still to come; \<open>break\<close> returns the
  state without looking at the rest.
\<close>

fun fuzzy_pass_v2 ::
  "pylib \<Rightarrow> pystr \<Rightarrow> pystr \<Rightarrow> pystr \<Rightarrow> pystr \<Rightarrow> pystr list \<Rightarrow>
   annotation list \<times> span set \<Rightarrow> annotation list \<times> span set" where
  "fuzzy_pass_v2 L text category target lemma_target [] st = st"
| "fuzzy_pass_v2 L text category target lemma_target (w # rest) (annotations, used_spans) =
     (let wn = normalize_text_for_matching_v2 L w
      in if length w < MIN_FUZZY_LEN
         then fuzzy_pass_v2 L text category target lemma_target rest (annotations, used_spans)
         else let idx = find (lower text) (lower w);
                  span_range = (idx, idx + int (length w))
              in if occupied used_spans span_range
                 then fuzzy_pass_v2 L text category target lemma_target rest
                        (annotations, used_spans)
                 else if lightweight_lemma wn = lemma_target
                 then fuzzy_pass_v2 L text category target lemma_target rest
                        (annotations, used_spans)
                 else let sim = similarity L wn target
                      in if 88 \<le> sim
                         then (annotations @ [(idx, idx + int (length w), category)],
                               insert span_range used_spans)
                         else fuzzy_pass_v2 L text category target lemma_target rest
                                (annotations, used_spans))"

text \<open>The body of \<open>for original_term, pattern in term_list\<close>.\<close>

definition term_step_v2 ::
  "pylib \<Rightarrow> pystr \<Rightarrow> pystr list \<Rightarrow> pystr \<Rightarrow> pystr \<times> regex \<Rightarrow>
   annotation list \<times> span set \<Rightarrow> annotation list \<times> span set" where
  "term_step_v2 L text words_unique category tp st =
     (case tp of (original_term, pattern) \<Rightarrow>
      case exact_pass_v2 text category original_term (finditer pattern text)
             (fst st, snd st, False) of
        (annotations, used_spans, matched_here) \<Rightarrow>
          if \<not> matched_here \<and> MIN_FUZZY_LEN \<le> length original_term
          then let target = normalize_text_for_matching_v2 L original_term;
                   lemma_target = lightweight_lemma target
               in fuzzy_pass_v2 L text category target lemma_target words_unique
                    (annotations, used_spans)
          else (annotations, used_spans))"

definition annotate_text_v2 ::
  "pylib \<Rightarrow> (pystr \<times> (pystr \<times> regex) list) list \<Rightarrow> pystr \<Rightarrow> annotation list" where
  "annotate_text_v2 L PRECOMPILED text =
     (let words = findall token_pattern_v2 text;
          words_unique = dict_fromkeys words
      in fst (fold (\<lambda>(category, term_list) st.
                      fold (term_step_v2 L text words_unique category) term_list st)
                PRECOMPILED ([], {})))"

subsection \<open>Second file: \<open>annotate_doccano_v2 copy.py\<close>\<close>

text \<open>\<open>\b[\w\-]{3,}\b\<close>\<close>

definition token_pattern_copy :: regex where
  "token_pattern_copy = Seq WordBoundary (Seq (TokChars 3) WordBoundary)"

text \<open>
  Calling a method on \<open>None\<close> raises \<open>AttributeError\<close>; this is the one place of
  \<open>annotate_text\<close> where the interpreter can raise.
\<close>

datatype py_error = AttributeError

definition finditer_opt :: "regex option \<Rightarrow> pystr \<Rightarrow> py_error + (nat \<times> nat) list" where
  "finditer_opt pattern text =
     (case pattern of None \<Rightarrow> Inl AttributeError | Some r \<Rightarrow> Inr (finditer r text))"

fun exact_pass_copy ::
  "pystr \<Rightarrow> pystr \<Rightarrow> pystr \<Rightarrow> (nat \<times> nat) list \<Rightarrow>
   annotation list \<times> span set \<times> bool \<Rightarrow> annotation list \<times> span set \<times> bool" where
  "exact_pass_copy text category original_term [] st = st"
| "exact_pass_copy text category original_term ((m_start, m_end) # rest)
       (annotations, used_spans, matched_here) =
     (let span_range = (int m_start, int m_end)
      in if occupied used_spans span_range
         then exact_pass_copy text category original_term rest
                (annotations, used_spans, matched_here)
         else if lightweight_lemma (slice text m_start m_end) = lightweight_lemma original_term
         then exact_pass_copy text category original_term rest
                (annotations @ [(int m_start, int m_end, category)],
                 insert span_range used_spans, True)
         else exact_pass_copy text category original_term rest
                (annotations, used_spans, matched_here))"

fun fuzzy_pass_copy ::
  "pylib \<Rightarrow> pystr \<Rightarrow> pystr \<Rightarrow> pystr \<Rightarrow> pystr \<Rightarrow> pystr list \<Rightarrow>
   annotation list \<times> span set \<Rightarrow> annotation list \<times> span set" where
  "fuzzy_pass_copy L text category target lemma_target [] st = st"
| "fuzzy_pass_copy L text category target lemma_target (w # rest) (annotations, used_spans) =
     (let wn = normalize_text_for_matching_copy L w
      in if length wn < 3
         then fuzzy_pass_copy L text category target lemma_target rest
                (annotations, used_spans)
         else if lightweight_lemma wn = lemma_target
         then fuzzy_pass_copy L text category target lemma_target rest
                (annotations, used_spans)
         else let sim = similarity L wn target
              in if 88 \<le> sim
                 then let idx = find (lower text) (lower w)
                      in if idx \<noteq> - 1
                         then let span_range = (idx, idx + int (length w))
                              in if occupied used_spans span_range
                                 then fuzzy_pass_copy L text category target lemma_target
                                        rest (annotations, used_spans)
                                 else (annotations @ [(idx, idx + int (length w), category)],
                                       insert span_range used_spans)
                         else (annotations, used_spans)
                 else fuzzy_pass_copy L text category target lemma_target rest
                        (annotations, used_spans))"

definition term_step_copy ::
  "pylib \<Rightarrow> pystr \<Rightarrow> pystr list \<Rightarrow> pystr \<Rightarrow> pystr \<times> regex option \<Rightarrow>
   annotation list \<times> span set \<Rightarrow> py_error + annotation list \<times> span set" where
  "term_step_copy L text words_unique category tp st =
     (case tp of (original_term, pattern) \<Rightarrow>
      if pattern = None then Inr st
      else case finditer_opt pattern text of
             Inl err \<Rightarrow> Inl err
           | Inr matches \<Rightarrow>
               (case exact_pass_copy text category original_term matches
                       (fst st, snd st, False) of
                  (annotations, used_spans, matched_here) \<Rightarrow>
                    if \<not> matched_here
                    then let target = normalize_text_for_matching_copy L original_term;
                             lemma_target = lightweight_lemma target
                         in Inr (fuzzy_pass_copy L text category target lemma_target
                                   words_unique (annotations, used_spans))
                    else Inr (annotations, used_spans)))"

text \<open>The two \<open>for\<close> loops; an exception raised in a step ends them.\<close>

fun terms_loop_copy ::
  "pylib \<Rightarrow> pystr \<Rightarrow> pystr list \<Rightarrow> pystr \<Rightarrow> (pystr \<times> regex option) list \<Rightarrow>
   annotation list \<times> span set \<Rightarrow> py_error + annotation list \<times> span set" where
  "terms_loop_copy L text words_unique category [] st = Inr st"
| "terms_loop_copy L text words_unique category (tp # rest) st =
     (case term_step_copy L text words_unique category tp st of
        Inl err \<Rightarrow> Inl err
      | Inr st' \<Rightarrow> terms_loop_copy L text words_unique category rest st')"

fun categories_loop_copy ::
  "pylib \<Rightarrow> pystr \<Rightarrow> pystr list \<Rightarrow> (pystr \<times> (pystr \<times> regex option) list) list \<Rightarrow>
   annotation list \<times> span set \<Rightarrow> py_error + annotation list \<times> span set" where
  "categories_loop_copy L text words_unique [] st = Inr st"
| "categories_loop_copy L text words_unique ((category, term_list) # rest) st =
     (case terms_loop_copy L text words_unique category term_list st of
        Inl err \<Rightarrow> Inl err
      | Inr st' \<Rightarrow> categories_loop_copy L text words_unique rest st')"

definition annotate_text_copy ::
  "pylib \<Rightarrow> (pystr \<times> (pystr \<times> regex option) list) list \<Rightarrow> pystr \<Rightarrow>
   py_error + annotation list" where
  "annotate_text_copy L PRECOMPILED text =
     (let words = findall token_pattern_copy text;
          words_unique = dict_fromkeys words
      in case categories_loop_copy L text words_unique PRECOMPILED ([], {}) of
           Inl err \<Rightarrow> Inl err
         | Inr st \<Rightarrow> Inr (fst st))"

section \<open>The similarity scores on short ASCII strings\<close>

text \<open>
  \<open>rapidfuzz.fuzz.ratio\<close> is the normalised indel similarity: with \<open>l\<close> the length of a
  longest common subsequence, \<open>100 * 2 * l / (len(a) + len(b))\<close>, and 100 for two empty
  strings. \<open>lcs_row\<close> computes one row of the usual table from the row above.
\<close>

fun lcs_row :: "nat \<Rightarrow> pystr \<Rightarrow> nat list \<Rightarrow> nat \<Rightarrow> nat list" where
  "lcs_row x (y # ys) (diag # up # ups) left =
     (let v = (if x = y then diag + 1 else max up left)
      in v # lcs_row x ys (up # ups) v)"
| "lcs_row x ys row left = []"

definition lcs :: "pystr \<Rightarrow> pystr \<Rightarrow> nat" where
  "lcs a b = last (fold (\<lambda>x row. 0 # lcs_row x b row 0) a (replicate (Suc (length b)) 0))"

definition indel_ratio :: "pystr \<Rightarrow> pystr \<Rightarrow> rat" where
  "indel_ratio a b =
     (if length a + length b = 0 then 100
      else 100 * (2 * of_nat (lcs a b)) / of_nat (length a + length b))"

text \<open>
  \<open>difflib.SequenceMatcher(None, a, b).ratio()\<close> is \<open>2 * M / (len(a) + len(b))\<close>, and 1
  for two empty strings, where \<open>M\<close> adds up the matching blocks: the longest common
  block (of the longest ones the one that starts first in \<open>a\<close>, then first in \<open>b\<close>),
  and recursively the blocks to its left and to its right. The junk heuristic of
  \<open>difflib\<close> only applies to a second string of 200 characters or more and is left out.
\<close>

fun common_prefix_len :: "pystr \<Rightarrow> pystr \<Rightarrow> nat" where
  "common_prefix_len (x # xs) (y # ys) = (if x = y then Suc (common_prefix_len xs ys) else 0)"
| "common_prefix_len xs ys = 0"

definition find_longest_match :: "pystr \<Rightarrow> pystr \<Rightarrow> nat \<times> nat \<times> nat" where
  "find_longest_match a b =
     fold (\<lambda>i best.
             fold (\<lambda>j best.
                     let k = common_prefix_len (drop i a) (drop j b)
                     in if snd (snd best) < k then (i, j, k) else best)
                  [0..<length b] best)
          [0..<length a] (0, 0, 0)"

function matching_total :: "pystr \<Rightarrow> pystr \<Rightarrow> nat" where
  "matching_total a b =
     (let m = find_longest_match a b; i = fst m; j = fst (snd m); k = snd (snd m)
      in if k = 0 then 0
         else k
              + (if 0 < i \<and> 0 < j then matching_total (take i a) (take j b) else 0)
              + (if i + k < length a \<and> j + k < length b
                 then matching_total (drop (i + k) a) (drop (j + k) b) else 0))"
  by pat_completeness auto
termination
proof -
  have cpl: "common_prefix_len xs ys \<le> length xs \<and> common_prefix_len xs ys \<le> length ys"
    for xs ys
    by (induction xs ys rule: common_prefix_len.induct) auto
  have fold_inv: "P (fold f xs s)"
    if "P s" and "\<And>x s. x \<in> set xs \<Longrightarrow> P s \<Longrightarrow> P (f x s)"
    for P :: "nat \<times> nat \<times> nat \<Rightarrow> bool" and f and xs :: "nat list" and s
    using that by (induction xs arbitrary: s) auto
  have bound: "fst (find_longest_match a b) + snd (snd (find_longest_match a b)) \<le> length a
       \<and> fst (snd (find_longest_match a b)) + snd (snd (find_longest_match a b)) \<le> length b"
    for a b
  proof -
    let ?P = "\<lambda>m :: nat \<times> nat \<times> nat.
                fst m + snd (snd m) \<le> length a \<and> fst (snd m) + snd (snd m) \<le> length b"
    have step: "?P (let k = common_prefix_len (drop i a) (drop j b)
                    in if snd (snd best) < k then (i, j, k) else best)"
      if "?P best" "i \<in> set [0..<length a]" "j \<in> set [0..<length b]" for i j best
    proof -
      have "common_prefix_len (drop i a) (drop j b) \<le> length a - i"
           "common_prefix_len (drop i a) (drop j b) \<le> length b - j"
        using cpl [of "drop i a" "drop j b"] by simp_all
      with that show ?thesis by (auto simp: Let_def)
    qed
    show ?thesis
      unfolding find_longest_match_def
      by (rule fold_inv [where P = ?P], simp, rule fold_inv [where P = ?P], assumption)
         (rule step, assumption+)
  qed
  show ?thesis
  proof (relation "measure (\<lambda>(a, b). length a + length b)")
    show "wf (measure (\<lambda>(a :: pystr, b :: pystr). length a + length b))" by simp
  next
    fix a b :: pystr and m i j k
    assume "m = find_longest_match a b" "i = fst m" "j = fst (snd m)" "k = snd (snd m)"
      "k \<noteq> 0" "0 < i \<and> 0 < j"
    with bound [of a b]
    show "((take i a, take j b), a, b) \<in> measure (\<lambda>(a, b). length a + length b)"
      by auto
  next
    fix a b :: pystr and m i j k
    assume "m = find_longest_match a b" "i = fst m" "j = fst (snd m)" "k = snd (snd m)"
      "k \<noteq> 0" "i + k < length a \<and> j + k < length b"
    then show "((drop (i + k) a, drop (j + k) b), a, b)
        \<in> measure (\<lambda>(a, b). length a + length b)"
      by auto
  qed
qed

definition ratcliff_ratio :: "pystr \<Rightarrow> pystr \<Rightarrow> rat" where
  "ratcliff_ratio a b =
     (if length a + length b = 0 then 1
      else 2 * of_nat (matching_total a b) / of_nat (length a + length b))"

text \<open>
  The libraries on ASCII text, where \<open>NFKC\<close> and \<open>NFKD\<close> change nothing and no
  character is a combining mark; \<open>has_fuzz\<close> says whether \<open>rapidfuzz\<close> is installed.
\<close>

definition ascii_lib :: "bool \<Rightarrow> pylib" where
  "ascii_lib has_fuzz =
     \<lparr> nfkc = (\<lambda>s. s), nfkd = (\<lambda>s. s), combining = (\<lambda>c. False), HAS_FUZZ = has_fuzz,
       fuzz_ratio = indel_ratio, seq_ratio = ratcliff_ratio \<rparr>"

section \<open>The two substitutions of \<open>clean_text\<close> as recursive functions\<close>

text \<open>
  What the two \<open>re.sub\<close> calls of \<open>clean_text\<close> compute, written as recursion over the
  text: a hyphen takes the whitespace around it with it, and a run of whitespace becomes
  one space. The theorems below show that \<open>re_sub\<close> on the two patterns computes them.
\<close>

function sub_hyphens :: "pystr \<Rightarrow> pystr" where
  "sub_hyphens [] = []"
| "sub_hyphens (c # cs) =
     (let u = dropWhile is_space (c # cs)
      in if u \<noteq> [] \<and> hd u = 45
         then 45 # sub_hyphens (dropWhile is_space (tl u))
         else c # sub_hyphens cs)"
  by pat_completeness auto
termination
proof (relation "measure length")
  show "wf (measure length)" by simp
next
  fix c :: nat and cs u :: pystr
  assume u: "u = dropWhile is_space (c # cs)" and "u \<noteq> [] \<and> hd u = 45"
  then have "length (tl u) < length u" by simp
  moreover have "length u \<le> length (c # cs)"
    unfolding u by (rule length_dropWhile_le)
  moreover have "length (dropWhile is_space (tl u)) \<le> length (tl u)"
    by (rule length_dropWhile_le)
  ultimately show "(dropWhile is_space (tl u), c # cs) \<in> measure length"
    by simp
next
  fix c :: nat and cs :: pystr
  show "(cs, c # cs) \<in> measure length" by simp
qed

function sub_spaces :: "pystr \<Rightarrow> pystr" where
  "sub_spaces [] = []"
| "sub_spaces (c # cs) =
     (if is_space c then 32 # sub_spaces (dropWhile is_space cs) else c # sub_spaces cs)"
  by pat_completeness auto
termination
proof (relation "measure length")
  show "wf (measure length)" by simp
next
  fix c :: nat and cs :: pystr
  have "length (dropWhile is_space cs) \<le> length cs"
    by (rule length_dropWhile_le)
  then show "(dropWhile is_space cs, c # cs) \<in> measure length" by simp
next
  fix c :: nat and cs :: pystr
  show "(cs, c # cs) \<in> measure length" by simp
qed

text \<open>
  The shape of a cleaned text: no whitespace is next to a hyphen (\<open>hy_pair\<close>), nor
  next to whitespace (\<open>neat_pair\<close>), every whitespace character is a space, the ends
  are not whitespace, and none of the characters that \<open>clean_text\<close> replaces is left.
\<close>

definition hy_pair :: "nat \<Rightarrow> nat \<Rightarrow> bool" where
  "hy_pair a b \<longleftrightarrow> \<not> (is_space a \<and> b = 45) \<and> \<not> (a = 45 \<and> is_space b)"

definition neat_pair :: "nat \<Rightarrow> nat \<Rightarrow> bool" where
  "neat_pair a b \<longleftrightarrow>
     \<not> (is_space a \<and> is_space b) \<and> \<not> (is_space a \<and> b = 45) \<and> \<not> (a = 45 \<and> is_space b)"

definition cleaned :: "pystr \<Rightarrow> bool" where
  "cleaned r \<longleftrightarrow>
     successively neat_pair r \<and>
     list_all (\<lambda>c. (is_space c \<longrightarrow> c = 32) \<and>
                    c \<noteq> 65279 \<and> c \<noteq> 8203 \<and> c \<noteq> 8220 \<and> c \<noteq> 8221 \<and> c \<noteq> 8212) r \<and>
     (r = [] \<or> (\<not> is_space (hd r) \<and> \<not> is_space (last r)))"

section \<open>What the claims say about the two passes\<close>

text \<open>
  These definitions follow the words of the specification, not the code; the theorems
  below compare the loops of the code with them.

  \<open>exact_new ok text category ms used new\<close>: every annotation of \<open>new\<close> is a match of
  \<open>ms\<close>, labelled \<open>category\<close>, whose surface passes the test \<open>ok\<close> and whose interval
  the program's test finds unoccupied in \<open>used\<close>.
\<close>

definition exact_new ::
  "(pystr \<Rightarrow> bool) \<Rightarrow> pystr \<Rightarrow> pystr \<Rightarrow> (nat \<times> nat) list \<Rightarrow> span set \<Rightarrow>
   annotation list \<Rightarrow> bool" where
  "exact_new ok text category ms used new \<longleftrightarrow>
     (\<forall>a \<in> set new. \<exists>(s, e) \<in> set ms.
        a = (int s, int e, category) \<and> ok (slice text s e) \<and> \<not> occupied used (int s, int e))"

text \<open>Two half-open intervals \<open>share a character index\<close>.\<close>

definition share_index :: "span \<Rightarrow> span \<Rightarrow> bool" where
  "share_index a b \<longleftrightarrow> max (fst a) (fst b) < min (snd a) (snd b)"

text \<open>The interval the fuzzy pass gives a word: from its first occurrence in the text.\<close>

definition fuzzy_span :: "pystr \<Rightarrow> pystr \<Rightarrow> span" where
  "fuzzy_span text w =
     (find (lower text) (lower w), find (lower text) (lower w) + int (length w))"

text \<open>
  \<open>A token that scores at least 88 and passes the filters\<close>, for each file, and
  \<open>the first such token of the pool is accepted, and the loop stops\<close>.
\<close>

definition fuzzy_candidate_v2 ::
  "pylib \<Rightarrow> pystr \<Rightarrow> pystr \<Rightarrow> pystr \<Rightarrow> span set \<Rightarrow> pystr \<Rightarrow> bool" where
  "fuzzy_candidate_v2 L text target lemma_target used w \<longleftrightarrow>
     MIN_FUZZY_LEN \<le> length w \<and>
     \<not> occupied used (fuzzy_span text w) \<and>
     lightweight_lemma (normalize_text_for_matching_v2 L w) \<noteq> lemma_target \<and>
     88 \<le> similarity L (normalize_text_for_matching_v2 L w) target"

definition fuzzy_first_v2 ::
  "pylib \<Rightarrow> pystr \<Rightarrow> pystr \<Rightarrow> pystr \<Rightarrow> pystr \<Rightarrow> pystr list \<Rightarrow>
   annotation list \<times> span set \<Rightarrow> annotation list \<times> span set" where
  "fuzzy_first_v2 L text category target lemma_target words st =
     (case List.find (fuzzy_candidate_v2 L text target lemma_target (snd st)) words of
        None \<Rightarrow> st
      | Some w \<Rightarrow>
          (fst st @ [(fst (fuzzy_span text w), snd (fuzzy_span text w), category)],
           insert (fuzzy_span text w) (snd st)))"

definition fuzzy_candidate_copy ::
  "pylib \<Rightarrow> pystr \<Rightarrow> pystr \<Rightarrow> pystr \<Rightarrow> span set \<Rightarrow> pystr \<Rightarrow> bool" where
  "fuzzy_candidate_copy L text target lemma_target used w \<longleftrightarrow>
     3 \<le> length (normalize_text_for_matching_copy L w) \<and>
     lightweight_lemma (normalize_text_for_matching_copy L w) \<noteq> lemma_target \<and>
     88 \<le> similarity L (normalize_text_for_matching_copy L w) target \<and>
     (find (lower text) (lower w) = - 1 \<or> \<not> occupied used (fuzzy_span text w))"

definition fuzzy_first_copy ::
  "pylib \<Rightarrow> pystr \<Rightarrow> pystr \<Rightarrow> pystr \<Rightarrow> pystr \<Rightarrow> pystr list \<Rightarrow>
   annotation list \<times> span set \<Rightarrow> annotation list \<times> span set" where
  "fuzzy_first_copy L text category target lemma_target words st =
     (case List.find (fuzzy_candidate_copy L text target lemma_target (snd st)) words of
        None \<Rightarrow> st
      | Some w \<Rightarrow>
          if find (lower text) (lower w) = - 1 then st
          else (fst st @ [(fst (fuzzy_span text w), snd (fuzzy_span text w), category)],
                insert (fuzzy_span text w) (snd st)))"

section \<open>Properties of the lemmatizer\<close>

lemma lower_cp_idem: "lower_cp (lower_cp c) = lower_cp c"
  by (simp add: lower_cp_def)

lemma lower_idem: "lower (lower s) = lower s"
  by (simp add: lower_def lower_cp_idem)

lemma lower_take: "lower (take n s) = take n (lower s)"
  by (simp add: lower_def take_map)

lemma length_lower: "length (lower s) = length s"
  by (simp add: lower_def)

lemma strip_first_cases:
  "strip_first w sl = w \<or>
   (\<exists>suf \<in> set sl. endswith w suf \<and> length suf + 2 < length w \<and>
       strip_first w sl = take (length w - length suf) w)"
  by (induction sl) auto

lemma strip_first_prefix: "prefix (strip_first w sl) w"
  using strip_first_cases [of w sl] by (auto simp: take_is_prefix)

lemma strip_first_fixed_iff:
  assumes "[] \<notin> set sl"
  shows "strip_first w sl = w \<longleftrightarrow>
         (\<forall>suf \<in> set sl. \<not> (endswith w suf \<and> length suf + 2 < length w))"
  using assms
proof (induction sl)
  case Nil
  then show ?case by simp
next
  case (Cons suf rest)
  have "take (length w - length suf) w \<noteq> w" if "length suf + 2 < length w" "suf \<noteq> []"
  proof
    assume "take (length w - length suf) w = w"
    then have "length (take (length w - length suf) w) = length w" by simp
    with that show False by (cases suf) auto
  qed
  with Cons show ?case by auto
qed

lemma suf_list_nonempty: "[] \<notin> set suf_list"
  by (simp add: suf_list_def py_def)

lemma lemma_lower_fixed: "lower (lightweight_lemma w) = lightweight_lemma w"
proof -
  obtain n where "strip_first (lower w) suf_list = take n (lower w)"
    using strip_first_cases [of "lower w" suf_list]
    by (metis order_refl take_all)
  then show ?thesis
    by (simp add: lightweight_lemma_def lower_take lower_idem)
qed

text \<open>
  C10. For every word \<open>w\<close> the lemma is a prefix of \<open>w.lower()\<close>; when a suffix was
  stripped (the lemma differs from \<open>w.lower()\<close>) at least three characters remain; and
  the lemma of a non-empty word is not empty.
\<close>

theorem lemma_prefix_and_root:
  "prefix (lightweight_lemma w) (lower w) \<and>
   (lightweight_lemma w \<noteq> lower w \<longrightarrow> 3 \<le> length (lightweight_lemma w)) \<and>
   (w \<noteq> [] \<longrightarrow> lightweight_lemma w \<noteq> [])"
proof -
  let ?w = "lower w"
  have p: "prefix (lightweight_lemma w) ?w"
    by (simp add: lightweight_lemma_def strip_first_prefix)
  have r: "3 \<le> length (lightweight_lemma w)" if "lightweight_lemma w \<noteq> ?w"
  proof -
    from that have "strip_first ?w suf_list \<noteq> ?w"
      by (simp add: lightweight_lemma_def)
    with strip_first_cases [of ?w suf_list]
    obtain suf :: pystr where "length suf + 2 < length ?w"
      and "strip_first ?w suf_list = take (length ?w - length suf) ?w"
      by blast
    then have "length (lightweight_lemma w) = length ?w - length suf"
      by (simp add: lightweight_lemma_def)
    with \<open>length suf + 2 < length ?w\<close> show ?thesis by simp
  qed
  have n: "lightweight_lemma w \<noteq> []" if "w \<noteq> []"
  proof (cases "lightweight_lemma w = ?w")
    case True
    with that show ?thesis by (simp add: lower_def)
  next
    case False
    from r [OF this] show ?thesis by auto
  qed
  from p r n show ?thesis by blast
qed

theorem lemma_prefix_and_root_witness:
  "lightweight_lemma (py ''Meetings'') = py ''meeting'' \<and>
   prefix (py ''meeting'') (lower (py ''Meetings'')) \<and>
   py ''meeting'' \<noteq> lower (py ''Meetings'') \<and> 3 \<le> length (py ''meeting'') \<and>
   py ''Meetings'' \<noteq> [] \<and> py ''meeting'' \<noteq> []"
proof -
  have e: "lightweight_lemma (py ''Meetings'') = py ''meeting''" by code_simp
  have d: "py ''meeting'' \<noteq> lower (py ''Meetings'')" by code_simp
  have ne: "py ''Meetings'' \<noteq> []" by (simp add: py_def)
  from lemma_prefix_and_root [of "py ''Meetings''"] e d ne show ?thesis by simp
qed

text \<open>
  C2, as stated, fails: the lemmatizer strips one suffix per call, and the root it returns
  may end in another suffix of the list. \<open>meetings\<close> gives \<open>meeting\<close>, which gives
  \<open>meet\<close>.
\<close>

theorem lemma_twice_counterexample:
  "lightweight_lemma (py ''meetings'') = py ''meeting'' \<and>
   lightweight_lemma (lightweight_lemma (py ''meetings'')) = py ''meet'' \<and>
   lightweight_lemma (lightweight_lemma (py ''meetings'')) \<noteq> lightweight_lemma (py ''meetings'')"
  by code_simp

text \<open>
  C2, amended. Lemmatizing a root again returns it unchanged exactly when no suffix of the
  list ends the root and leaves more than two characters.
\<close>

theorem lemma_stable_iff:
  "lightweight_lemma (lightweight_lemma w) = lightweight_lemma w \<longleftrightarrow>
   (\<forall>suf \<in> set suf_list.
      \<not> (endswith (lightweight_lemma w) suf \<and> length suf + 2 < length (lightweight_lemma w)))"
proof -
  have "lightweight_lemma (lightweight_lemma w) = strip_first (lightweight_lemma w) suf_list"
    by (simp add: lightweight_lemma_def [of "lightweight_lemma w"] lemma_lower_fixed)
  then show ?thesis
    by (simp only: strip_first_fixed_iff [OF suf_list_nonempty])
qed

theorem lemma_stable_iff_witness:
  "lightweight_lemma (py ''notes'') = py ''not'' \<and>
   lightweight_lemma (lightweight_lemma (py ''notes'')) = lightweight_lemma (py ''notes'')"
proof -
  have v: "lightweight_lemma (py ''notes'') = py ''not''"
    by code_simp
  have h: "\<forall>suf \<in> set suf_list.
             \<not> (endswith (py ''not'') suf \<and> length suf + 2 < length (py ''not''))"
    by code_simp
  from lemma_stable_iff [of "py ''notes''"] v h show ?thesis by simp
qed

section \<open>The exact pass\<close>

lemma occupied_mono: "occupied used r \<Longrightarrow> used \<subseteq> used' \<Longrightarrow> occupied used' r"
  unfolding occupied_def by blast

lemma lower_eq_lemma_eq: "lower a = lower b \<Longrightarrow> lightweight_lemma a = lightweight_lemma b"
  by (simp add: lightweight_lemma_def)

lemma exact_new_Nil: "exact_new ok text category ms used []"
  by (simp add: exact_new_def)

lemma exact_new_Cons_ms: "exact_new ok text category ms used new \<Longrightarrow> exact_new ok text category (m # ms) used new"
  unfolding exact_new_def by fastforce

lemma exact_new_weaken:
  "exact_new ok text category ms used' new \<Longrightarrow> used \<subseteq> used' \<Longrightarrow> exact_new ok text category ms used new"
  unfolding exact_new_def using occupied_mono by fastforce

lemma exact_pass_v2_spec:
  "exact_pass_v2 text category term ms (anns, used, mh) = (anns', used', mh') \<Longrightarrow>
   \<exists>new. anns' = anns @ new \<and> (mh' \<longleftrightarrow> mh \<or> new \<noteq> []) \<and> used \<subseteq> used' \<and>
         exact_new (\<lambda>w. lower w = lower term) text category ms used new"
proof (induction ms arbitrary: anns used mh)
  case Nil
  then show ?case by (simp add: exact_new_Nil)
next
  case (Cons m ms)
  obtain s e where m: "m = (s, e)" by (cases m)
  let ?ok = "\<lambda>w. lower w = lower term"
  show ?case
  proof (cases "\<not> occupied used (int s, int e) \<and> lower (slice text s e) = lower term")
    case False
    with Cons.prems m
    have "exact_pass_v2 text category term ms (anns, used, mh) = (anns', used', mh')"
      by (auto simp: Let_def split: if_splits)
    from Cons.IH [OF this] show ?thesis
      using exact_new_Cons_ms by blast
  next
    case True
    with Cons.prems m
    have "exact_pass_v2 text category term ms
            (anns @ [(int s, int e, category)], insert (int s, int e) used, True)
          = (anns', used', mh')"
      by (auto simp: Let_def)
    from Cons.IH [OF this] obtain new where
      n: "anns' = (anns @ [(int s, int e, category)]) @ new" "mh'"
         "insert (int s, int e) used \<subseteq> used'"
         "exact_new ?ok text category ms (insert (int s, int e) used) new"
      by auto
    from n(4) have "exact_new ?ok text category (m # ms) used new"
      by (meson exact_new_Cons_ms exact_new_weaken subset_insertI)
    with True m have "exact_new ?ok text category (m # ms) used ((int s, int e, category) # new)"
      unfolding exact_new_def by auto
    with n show ?thesis by auto
  qed
qed

lemma exact_pass_copy_spec:
  "exact_pass_copy text category term ms (anns, used, mh) = (anns', used', mh') \<Longrightarrow>
   \<exists>new. anns' = anns @ new \<and> (mh' \<longleftrightarrow> mh \<or> new \<noteq> []) \<and> used \<subseteq> used' \<and>
         exact_new (\<lambda>w. lightweight_lemma w = lightweight_lemma term) text category ms used new"
proof (induction ms arbitrary: anns used mh)
  case Nil
  then show ?case by (simp add: exact_new_Nil)
next
  case (Cons m ms)
  obtain s e where m: "m = (s, e)" by (cases m)
  let ?ok = "\<lambda>w. lightweight_lemma w = lightweight_lemma term"
  show ?case
  proof (cases "\<not> occupied used (int s, int e) \<and> ?ok (slice text s e)")
    case False
    with Cons.prems m
    have "exact_pass_copy text category term ms (anns, used, mh) = (anns', used', mh')"
      by (auto simp: Let_def split: if_splits)
    from Cons.IH [OF this] show ?thesis
      using exact_new_Cons_ms by blast
  next
    case True
    with Cons.prems m
    have "exact_pass_copy text category term ms
            (anns @ [(int s, int e, category)], insert (int s, int e) used, True)
          = (anns', used', mh')"
      by (auto simp: Let_def)
    from Cons.IH [OF this] obtain new where
      n: "anns' = (anns @ [(int s, int e, category)]) @ new" "mh'"
         "insert (int s, int e) used \<subseteq> used'"
         "exact_new ?ok text category ms (insert (int s, int e) used) new"
      by auto
    from n(4) have "exact_new ?ok text category (m # ms) used new"
      by (meson exact_new_Cons_ms exact_new_weaken subset_insertI)
    with True m have "exact_new ?ok text category (m # ms) used ((int s, int e, category) # new)"
      unfolding exact_new_def by auto
    with n show ?thesis by auto
  qed
qed

lemma exact_new_lemma_v2:
  assumes "exact_new (\<lambda>w. lower w = lower term) text category ms used new"
  shows "\<forall>(s, e, c) \<in> set new.
           (nat s, nat e) \<in> set ms \<and> c = category \<and>
           lightweight_lemma (slice text (nat s) (nat e)) = lightweight_lemma term \<and>
           \<not> occupied used (s, e)"
  using assms unfolding exact_new_def by (fastforce dest: lower_eq_lemma_eq)

lemma exact_new_lemma_copy:
  assumes "exact_new (\<lambda>w. lightweight_lemma w = lightweight_lemma term) text category ms used new"
  shows "\<forall>(s, e, c) \<in> set new.
           (nat s, nat e) \<in> set ms \<and> c = category \<and>
           lightweight_lemma (slice text (nat s) (nat e)) = lightweight_lemma term \<and>
           \<not> occupied used (s, e)"
  using assms unfolding exact_new_def by fastforce

text \<open>
  The lemma test of the exact pass. In both files every span the exact pass adds is a match
  of the pattern whose surface has the lemma of the term, labelled with the category, and
  whose interval passed the program's overlap test on the spans occupied before the pass.
  The first file compares the lower-cased surface with the lower-cased term, which implies
  equal lemmas. That test is not the absence of an overlap: see
  \<open>exact_pass_accepts_containing_span\<close> below.
\<close>

theorem exact_spans_share_lemma:
  "(exact_pass_v2 text category term (finditer pattern text) (anns, used, False)
      = (anns', used', mh') \<longrightarrow>
    (\<exists>new. anns' = anns @ new \<and>
       (\<forall>(s, e, c) \<in> set new.
          (nat s, nat e) \<in> set (finditer pattern text) \<and> c = category \<and>
          lightweight_lemma (slice text (nat s) (nat e)) = lightweight_lemma term \<and>
          \<not> occupied used (s, e)))) \<and>
   (exact_pass_copy text category term (finditer pattern text) (anns, used, False)
      = (anns'', used'', mh'') \<longrightarrow>
    (\<exists>new. anns'' = anns @ new \<and>
       (\<forall>(s, e, c) \<in> set new.
          (nat s, nat e) \<in> set (finditer pattern text) \<and> c = category \<and>
          lightweight_lemma (slice text (nat s) (nat e)) = lightweight_lemma term \<and>
          \<not> occupied used (s, e))))"
proof (intro conjI impI)
  assume "exact_pass_v2 text category term (finditer pattern text) (anns, used, False)
          = (anns', used', mh')"
  from exact_pass_v2_spec [OF this] obtain new where
    n: "anns' = anns @ new"
       "exact_new (\<lambda>w. lower w = lower term) text category (finditer pattern text) used new"
    by blast
  show "\<exists>new. anns' = anns @ new \<and>
       (\<forall>(s, e, c) \<in> set new.
          (nat s, nat e) \<in> set (finditer pattern text) \<and> c = category \<and>
          lightweight_lemma (slice text (nat s) (nat e)) = lightweight_lemma term \<and>
          \<not> occupied used (s, e))"
    by (intro exI [of _ new] conjI n(1) exact_new_lemma_v2 [OF n(2)])
next
  assume "exact_pass_copy text category term (finditer pattern text) (anns, used, False)
          = (anns'', used'', mh'')"
  from exact_pass_copy_spec [OF this] obtain new where
    n: "anns'' = anns @ new"
       "exact_new (\<lambda>w. lightweight_lemma w = lightweight_lemma term) text category
          (finditer pattern text) used new"
    by blast
  show "\<exists>new. anns'' = anns @ new \<and>
       (\<forall>(s, e, c) \<in> set new.
          (nat s, nat e) \<in> set (finditer pattern text) \<and> c = category \<and>
          lightweight_lemma (slice text (nat s) (nat e)) = lightweight_lemma term \<and>
          \<not> occupied used (s, e))"
    by (intro exI [of _ new] conjI n(1) exact_new_lemma_copy [OF n(2)])
qed

lemma heart_exact_v2:
  "exact_pass_v2 (py ''acute heart failure onset'') (py ''A'') (py ''Heart'')
     (finditer (build_flexible_pattern_v2 (py ''Heart'')) (py ''acute heart failure onset''))
     ([], {}, False) = ([(6, 11, py ''A'')], {(6, 11)}, True)"
  by code_simp

lemma hearts_exact_copy:
  "exact_pass_copy (py ''acute hearts fail'') (py ''A'') (py ''heart'')
     (finditer (build_flexible_pattern_copy (py ''heart'')) (py ''acute hearts fail''))
     ([], {}, False) = ([(6, 12, py ''A'')], {(6, 12)}, True)"
  by code_simp

theorem exact_spans_share_lemma_witness:
  "exact_pass_v2 (py ''acute heart failure onset'') (py ''A'') (py ''Heart'')
     (finditer (build_flexible_pattern_v2 (py ''Heart'')) (py ''acute heart failure onset''))
     ([], {}, False) = ([(6, 11, py ''A'')], {(6, 11)}, True) \<and>
   lightweight_lemma (slice (py ''acute heart failure onset'') 6 11) = lightweight_lemma (py ''Heart'') \<and>
   exact_pass_copy (py ''acute hearts fail'') (py ''A'') (py ''heart'')
     (finditer (build_flexible_pattern_copy (py ''heart'')) (py ''acute hearts fail''))
     ([], {}, False) = ([(6, 12, py ''A'')], {(6, 12)}, True) \<and>
   lightweight_lemma (slice (py ''acute hearts fail'') 6 12) = lightweight_lemma (py ''heart'')"
proof -
  note t = exact_spans_share_lemma
    [of _ _ _ _ "[]" "{}", simplified, THEN conjunct1, rule_format, OF heart_exact_v2]
  note u = exact_spans_share_lemma
    [of _ _ _ _ "[]" "{}", simplified, THEN conjunct2, rule_format, OF hearts_exact_copy]
  from t have "lightweight_lemma (slice (py ''acute heart failure onset'') 6 11)
               = lightweight_lemma (py ''Heart'')"
    by simp
  moreover from u have "lightweight_lemma (slice (py ''acute hearts fail'') 6 12)
               = lightweight_lemma (py ''heart'')"
    by simp
  ultimately show ?thesis
    using heart_exact_v2 hearts_exact_copy by simp
qed

text \<open>
  C3 fails in both files, in its second condition. The exact pass does accept a match only
  if its surface has the lemma of the term (\<open>exact_spans_share_lemma\<close>), but it also
  accepts a match whose interval is occupied: the overlap test asks whether the start or
  the end of the match lies inside an occupied interval, and a match that contains an
  occupied interval passes it. With \<open>{"A": ["heart"], "B": ["acute heart failure"]}\<close> and
  the text \<open>acute heart failure onset\<close>, the exact pass of \<open>acute heart failure\<close> starts
  with the interval \<open>[6, 11)\<close> of \<open>heart\<close> occupied and accepts \<open>[0, 19)\<close>, which shares the
  indices 6 to 10 with it. This is the defect behind C1.
\<close>

theorem exact_pass_accepts_containing_span:
  "exact_pass_v2 (py ''acute heart failure onset'') (py ''B'') (py ''acute heart failure'')
     (finditer (build_flexible_pattern_v2 (py ''acute heart failure''))
        (py ''acute heart failure onset''))
     ([(6, 11, py ''A'')], {(6, 11)}, False)
   = ([(6, 11, py ''A''), (0, 19, py ''B'')], {(0, 19), (6, 11)}, True) \<and>
   exact_pass_copy (py ''acute heart failure onset'') (py ''B'') (py ''acute heart failure'')
     (finditer (build_flexible_pattern_copy (py ''acute heart failure''))
        (py ''acute heart failure onset''))
     ([(6, 11, py ''A'')], {(6, 11)}, False)
   = ([(6, 11, py ''A''), (0, 19, py ''B'')], {(0, 19), (6, 11)}, True) \<and>
   share_index (0, 19) (6, 11) \<and>
   lightweight_lemma (slice (py ''acute heart failure onset'') 0 19)
   = lightweight_lemma (py ''acute heart failure'')"
  by code_simp

section \<open>The fuzzy pass\<close>

lemma fuzzy_pass_v2_first:
  "fuzzy_pass_v2 L text category target lemma_target words st
   = fuzzy_first_v2 L text category target lemma_target words st"
proof (induction words)
  case Nil
  show ?case by (cases st) (simp add: fuzzy_first_v2_def)
next
  case (Cons w words)
  obtain anns used where st: "st = (anns, used)" by (cases st)
  show ?case
  proof (cases "fuzzy_candidate_v2 L text target lemma_target used w")
    case True
    then show ?thesis
      unfolding st by (simp add: fuzzy_first_v2_def fuzzy_candidate_v2_def fuzzy_span_def Let_def)
  next
    case False
    then have "fuzzy_pass_v2 L text category target lemma_target (w # words) (anns, used)
             = fuzzy_pass_v2 L text category target lemma_target words (anns, used)"
      by (auto simp: fuzzy_candidate_v2_def fuzzy_span_def Let_def)
    with False Cons show ?thesis
      unfolding st by (simp add: fuzzy_first_v2_def)
  qed
qed

lemma fuzzy_pass_copy_first:
  "fuzzy_pass_copy L text category target lemma_target words st
   = fuzzy_first_copy L text category target lemma_target words st"
proof (induction words)
  case Nil
  show ?case by (cases st) (simp add: fuzzy_first_copy_def)
next
  case (Cons w words)
  obtain anns used where st: "st = (anns, used)" by (cases st)
  show ?case
  proof (cases "fuzzy_candidate_copy L text target lemma_target used w")
    case True
    then show ?thesis
      unfolding st
      by (auto simp: fuzzy_first_copy_def fuzzy_candidate_copy_def fuzzy_span_def Let_def)
  next
    case False
    then have "fuzzy_pass_copy L text category target lemma_target (w # words) (anns, used)
             = fuzzy_pass_copy L text category target lemma_target words (anns, used)"
      by (auto simp: fuzzy_candidate_copy_def fuzzy_span_def Let_def)
    with False Cons show ?thesis
      unfolding st by (simp add: fuzzy_first_copy_def)
  qed
qed

lemma fuzzy_first_v2_length:
  "\<exists>new. fst (fuzzy_first_v2 L text category target lemma_target words (anns, used)) = anns @ new
         \<and> length new \<le> 1"
  by (simp add: fuzzy_first_v2_def split: option.split)

lemma fuzzy_first_copy_length:
  "\<exists>new. fst (fuzzy_first_copy L text category target lemma_target words (anns, used)) = anns @ new
         \<and> length new \<le> 1"
  by (simp add: fuzzy_first_copy_def split: option.split)

text \<open>
  C7. In both files the fuzzy loop of a term is the search for the first word of the pool
  that scores at least 88 and passes the filters; that word's span is appended and the
  loop stops, so the loop appends at most one span. (The loop runs at most once for each
  entry of the index, see \<open>term_step_v2\<close> and \<open>term_step_copy\<close>.)
\<close>

theorem fuzzy_pass_at_most_one:
  "fuzzy_pass_v2 L text category target lemma_target words st
     = fuzzy_first_v2 L text category target lemma_target words st \<and>
   fuzzy_pass_copy L text category target lemma_target words st
     = fuzzy_first_copy L text category target lemma_target words st \<and>
   (\<exists>new. fst (fuzzy_pass_v2 L text category target lemma_target words st) = fst st @ new
          \<and> length new \<le> 1) \<and>
   (\<exists>new. fst (fuzzy_pass_copy L text category target lemma_target words st) = fst st @ new
          \<and> length new \<le> 1)"
proof -
  obtain anns used where st: "st = (anns, used)" by (cases st)
  show ?thesis
    using fuzzy_first_v2_length [of L "text" category target lemma_target words anns used]
          fuzzy_first_copy_length [of L "text" category target lemma_target words anns used]
    by (simp add: fuzzy_pass_v2_first fuzzy_pass_copy_first st)
qed

section \<open>When the fuzzy pass runs\<close>

lemma term_step_v2_unfold:
  assumes "exact_pass_v2 text category term (finditer pattern text) (anns, used, False)
           = (a1, u1, m)"
  shows "\<exists>new. a1 = anns @ new \<and>
           term_step_v2 L text words category (term, pattern) (anns, used)
           = (if new = [] \<and> MIN_FUZZY_LEN \<le> length term
              then fuzzy_pass_v2 L text category (normalize_text_for_matching_v2 L term)
                     (lightweight_lemma (normalize_text_for_matching_v2 L term)) words (a1, u1)
              else (a1, u1))"
proof -
  from exact_pass_v2_spec [OF assms] obtain new where
    n: "a1 = anns @ new" "m \<longleftrightarrow> new \<noteq> []"
    by auto
  have "term_step_v2 L text words category (term, pattern) (anns, used)
        = (if \<not> m \<and> MIN_FUZZY_LEN \<le> length term
           then fuzzy_pass_v2 L text category (normalize_text_for_matching_v2 L term)
                  (lightweight_lemma (normalize_text_for_matching_v2 L term)) words (a1, u1)
           else (a1, u1))"
    by (simp add: term_step_v2_def assms Let_def)
  with n show ?thesis by auto
qed

lemma term_step_copy_unfold:
  assumes "exact_pass_copy text category term (finditer pattern text) (anns, used, False)
           = (a1, u1, m)"
  shows "\<exists>new. a1 = anns @ new \<and>
           term_step_copy L text words category (term, Some pattern) (anns, used)
           = Inr (if new = []
                  then fuzzy_pass_copy L text category
                         (normalize_text_for_matching_copy L term)
                         (lightweight_lemma (normalize_text_for_matching_copy L term)) words
                         (a1, u1)
                  else (a1, u1))"
proof -
  from exact_pass_copy_spec [OF assms] obtain new where
    n: "a1 = anns @ new" "m \<longleftrightarrow> new \<noteq> []"
    by auto
  have "term_step_copy L text words category (term, Some pattern) (anns, used)
        = Inr (if \<not> m
               then fuzzy_pass_copy L text category
                      (normalize_text_for_matching_copy L term)
                      (lightweight_lemma (normalize_text_for_matching_copy L term)) words
                      (a1, u1)
               else (a1, u1))"
    by (simp add: term_step_copy_def finditer_opt_def assms Let_def)
  with n show ?thesis by auto
qed

text \<open>
  C8, as stated, fails for the second file: its fuzzy pass has no threshold on the length
  of the term. The term \<open>gene\<close> has four characters, fewer than \<open>MIN_FUZZY_LEN\<close>; the
  exact pass accepts nothing for it, and the fuzzy pass labels \<open>genes\<close>.
\<close>

theorem short_term_fuzzy_counterexample:
  "length (py ''gene'') < MIN_FUZZY_LEN \<and>
   exact_pass_copy (py ''Two genes interact.'') (py ''Gene'') (py ''gene'')
     (finditer (build_flexible_pattern_copy (py ''gene'')) (py ''Two genes interact.''))
     ([], {}, False) = ([], {}, False) \<and>
   annotate_text_copy (ascii_lib True) (PRECOMPILED_copy [(py ''Gene'', [py ''gene''])])
     (py ''Two genes interact.'') = Inr [(4, 9, py ''Gene'')] \<and>
   annotate_text_copy (ascii_lib False) (PRECOMPILED_copy [(py ''Gene'', [py ''gene''])])
     (py ''Two genes interact.'') = Inr [(4, 9, py ''Gene'')]"
  by code_simp

lemma fatigue_exact_v2:
  "exact_pass_v2 (py ''Patients reported fatigued states.'') (py ''Symptom'') (py ''fatigue'')
     (finditer (build_flexible_pattern_v2 (py ''fatigue''))
        (py ''Patients reported fatigued states.''))
     ([], {}, False) = ([], {}, False)"
  by code_simp

lemma gene_exact_copy:
  "exact_pass_copy (py ''Two genes interact.'') (py ''Gene'') (py ''gene'')
     (finditer (build_flexible_pattern_copy (py ''gene'')) (py ''Two genes interact.''))
     ([], {}, False) = ([], {}, False)"
  by code_simp

lemma fatigue_long: "MIN_FUZZY_LEN \<le> length (py ''fatigue'')"
  by code_simp

text \<open>
  C8, amended. In both files the fuzzy pass of a term runs only when the exact pass
  accepted no span for it; in the first file it runs only if, besides, the term has at
  least \<open>MIN_FUZZY_LEN\<close> characters; the second file has no such threshold. Otherwise the
  state after the exact pass is the state after the term.
\<close>

theorem fuzzy_only_after_empty_exact:
  "(exact_pass_v2 text category term (finditer pattern text) (anns, used, False) = (a1, u1, m)
    \<longrightarrow> (\<exists>new. a1 = anns @ new \<and>
           term_step_v2 L text words category (term, pattern) (anns, used)
           = (if new = [] \<and> MIN_FUZZY_LEN \<le> length term
              then fuzzy_pass_v2 L text category (normalize_text_for_matching_v2 L term)
                     (lightweight_lemma (normalize_text_for_matching_v2 L term)) words (a1, u1)
              else (a1, u1)))) \<and>
   (exact_pass_copy text category term (finditer pattern text) (anns, used, False) = (a2, u2, m')
    \<longrightarrow> (\<exists>new. a2 = anns @ new \<and>
           term_step_copy L text words category (term, Some pattern) (anns, used)
           = Inr (if new = []
                  then fuzzy_pass_copy L text category
                         (normalize_text_for_matching_copy L term)
                         (lightweight_lemma (normalize_text_for_matching_copy L term)) words
                         (a2, u2)
                  else (a2, u2))))"
proof (intro conjI impI)
  assume "exact_pass_v2 text category term (finditer pattern text) (anns, used, False)
          = (a1, u1, m)"
  then show "\<exists>new. a1 = anns @ new \<and>
           term_step_v2 L text words category (term, pattern) (anns, used)
           = (if new = [] \<and> MIN_FUZZY_LEN \<le> length term
              then fuzzy_pass_v2 L text category (normalize_text_for_matching_v2 L term)
                     (lightweight_lemma (normalize_text_for_matching_v2 L term)) words (a1, u1)
              else (a1, u1))"
    by (rule term_step_v2_unfold)
next
  assume "exact_pass_copy text category term (finditer pattern text) (anns, used, False)
          = (a2, u2, m')"
  then show "\<exists>new. a2 = anns @ new \<and>
           term_step_copy L text words category (term, Some pattern) (anns, used)
           = Inr (if new = []
                  then fuzzy_pass_copy L text category
                         (normalize_text_for_matching_copy L term)
                         (lightweight_lemma (normalize_text_for_matching_copy L term)) words
                         (a2, u2)
                  else (a2, u2))"
    by (rule term_step_copy_unfold)
qed

theorem fuzzy_only_after_empty_exact_witness:
  "exact_pass_v2 (py ''Patients reported fatigued states.'') (py ''Symptom'') (py ''fatigue'')
     (finditer (build_flexible_pattern_v2 (py ''fatigue''))
        (py ''Patients reported fatigued states.''))
     ([], {}, False) = ([], {}, False) \<and>
   term_step_v2 (ascii_lib True) (py ''Patients reported fatigued states.'')
     (dict_fromkeys (findall token_pattern_v2 (py ''Patients reported fatigued states.'')))
     (py ''Symptom'')
     (py ''fatigue'', build_flexible_pattern_v2 (py ''fatigue'')) ([], {})
   = fuzzy_pass_v2 (ascii_lib True) (py ''Patients reported fatigued states.'') (py ''Symptom'')
       (normalize_text_for_matching_v2 (ascii_lib True) (py ''fatigue''))
       (lightweight_lemma (normalize_text_for_matching_v2 (ascii_lib True) (py ''fatigue'')))
       (dict_fromkeys (findall token_pattern_v2 (py ''Patients reported fatigued states.'')))
       ([], {}) \<and>
   exact_pass_copy (py ''Two genes interact.'') (py ''Gene'') (py ''gene'')
     (finditer (build_flexible_pattern_copy (py ''gene'')) (py ''Two genes interact.''))
     ([], {}, False) = ([], {}, False) \<and>
   term_step_copy (ascii_lib False) (py ''Two genes interact.'')
     (dict_fromkeys (findall token_pattern_copy (py ''Two genes interact.'')))
     (py ''Gene'')
     (py ''gene'', Some (build_flexible_pattern_copy (py ''gene''))) ([], {})
   = Inr (fuzzy_pass_copy (ascii_lib False) (py ''Two genes interact.'') (py ''Gene'')
       (normalize_text_for_matching_copy (ascii_lib False) (py ''gene''))
       (lightweight_lemma (normalize_text_for_matching_copy (ascii_lib False) (py ''gene'')))
       (dict_fromkeys (findall token_pattern_copy (py ''Two genes interact.'')))
       ([], {}))"
proof -
  note a = fuzzy_only_after_empty_exact [THEN conjunct1, rule_format, OF fatigue_exact_v2]
  note b = fuzzy_only_after_empty_exact [THEN conjunct2, rule_format, OF gene_exact_copy]
  from a [of "ascii_lib True"
          "dict_fromkeys (findall token_pattern_v2 (py ''Patients reported fatigued states.''))"]
  have 1: "term_step_v2 (ascii_lib True) (py ''Patients reported fatigued states.'')
     (dict_fromkeys (findall token_pattern_v2 (py ''Patients reported fatigued states.'')))
     (py ''Symptom'')
     (py ''fatigue'', build_flexible_pattern_v2 (py ''fatigue'')) ([], {})
   = fuzzy_pass_v2 (ascii_lib True) (py ''Patients reported fatigued states.'') (py ''Symptom'')
       (normalize_text_for_matching_v2 (ascii_lib True) (py ''fatigue''))
       (lightweight_lemma (normalize_text_for_matching_v2 (ascii_lib True) (py ''fatigue'')))
       (dict_fromkeys (findall token_pattern_v2 (py ''Patients reported fatigued states.'')))
       ([], {})"
    using fatigue_long by auto
  from b [of "ascii_lib False"
          "dict_fromkeys (findall token_pattern_copy (py ''Two genes interact.''))"]
  have 2: "term_step_copy (ascii_lib False) (py ''Two genes interact.'')
     (dict_fromkeys (findall token_pattern_copy (py ''Two genes interact.'')))
     (py ''Gene'')
     (py ''gene'', Some (build_flexible_pattern_copy (py ''gene''))) ([], {})
   = Inr (fuzzy_pass_copy (ascii_lib False) (py ''Two genes interact.'') (py ''Gene'')
       (normalize_text_for_matching_copy (ascii_lib False) (py ''gene''))
       (lightweight_lemma (normalize_text_for_matching_copy (ascii_lib False) (py ''gene'')))
       (dict_fromkeys (findall token_pattern_copy (py ''Two genes interact.'')))
       ([], {}))"
    by auto
  from 1 2 fatigue_exact_v2 gene_exact_copy show ?thesis by (intro conjI)
qed

section \<open>The scenarios\<close>

text \<open>
  C1 fails in both files. The overlap test asks whether the start or the end of the
  candidate lies inside an occupied interval; a candidate that contains an occupied
  interval strictly passes it. With \<open>{"A": ["heart"], "B": ["acute heart failure"]}\<close> and
  the text \<open>acute heart failure onset\<close>, whatever the libraries, both files return the
  span of \<open>heart\<close> and then the span of \<open>acute heart failure\<close> around it.
\<close>

theorem containing_span_accepted:
  "annotate_text_v2 L
     (PRECOMPILED_v2 [(py ''A'', [py ''heart'']), (py ''B'', [py ''acute heart failure''])])
     (py ''acute heart failure onset'') = [(6, 11, py ''A''), (0, 19, py ''B'')] \<and>
   annotate_text_copy L
     (PRECOMPILED_copy [(py ''A'', [py ''heart'']), (py ''B'', [py ''acute heart failure''])])
     (py ''acute heart failure onset'') = Inr [(6, 11, py ''A''), (0, 19, py ''B'')] \<and>
   share_index (6, 11) (0, 19) \<and>
   \<not> occupied {(6, 11)} (0, 19)"
  by code_simp

text \<open>
  C4, as stated, fails: the exact-pass pattern of \<open>fatigue\<close> is the literal \<open>fatigue\<close>
  with an optional suffix, and \<open>fatigued\<close> is not \<open>fatigue\<close> followed by \<open>ed\<close>. In both
  files the pattern has no match in the text and the exact pass accepts nothing.
\<close>

theorem fatigued_no_exact_match_counterexample:
  "finditer (build_flexible_pattern_v2 (py ''fatigue''))
     (py ''Patients reported fatigued states.'') = [] \<and>
   finditer (build_flexible_pattern_copy (py ''fatigue''))
     (py ''Patients reported fatigued states.'') = [] \<and>
   exact_pass_v2 (py ''Patients reported fatigued states.'') (py ''Symptom'') (py ''fatigue'')
     (finditer (build_flexible_pattern_v2 (py ''fatigue''))
        (py ''Patients reported fatigued states.''))
     ([], {}, False) = ([], {}, False) \<and>
   exact_pass_copy (py ''Patients reported fatigued states.'') (py ''Symptom'') (py ''fatigue'')
     (finditer (build_flexible_pattern_copy (py ''fatigue''))
        (py ''Patients reported fatigued states.''))
     ([], {}, False) = ([], {}, False)"
  by code_simp

text \<open>
  C4, amended. Both files return exactly one span, \<open>[18, 26, Symptom]\<close>, which covers
  \<open>fatigued\<close>; it is the fuzzy pass that accepts it: \<open>fatigued\<close> is the first word of the
  pool that scores at least 88 against \<open>fatigue\<close> (280/3 with either similarity).
\<close>

theorem fatigued_one_fuzzy_span:
  "annotate_text_v2 (ascii_lib True) (PRECOMPILED_v2 [(py ''Symptom'', [py ''fatigue''])])
     (py ''Patients reported fatigued states.'') = [(18, 26, py ''Symptom'')] \<and>
   annotate_text_v2 (ascii_lib False) (PRECOMPILED_v2 [(py ''Symptom'', [py ''fatigue''])])
     (py ''Patients reported fatigued states.'') = [(18, 26, py ''Symptom'')] \<and>
   annotate_text_copy (ascii_lib True) (PRECOMPILED_copy [(py ''Symptom'', [py ''fatigue''])])
     (py ''Patients reported fatigued states.'') = Inr [(18, 26, py ''Symptom'')] \<and>
   annotate_text_copy (ascii_lib False) (PRECOMPILED_copy [(py ''Symptom'', [py ''fatigue''])])
     (py ''Patients reported fatigued states.'') = Inr [(18, 26, py ''Symptom'')] \<and>
   slice (py ''Patients reported fatigued states.'') 18 26 = py ''fatigued'' \<and>
   similarity (ascii_lib True) (py ''fatigued'') (py ''fatigue'') = 280 / 3 \<and>
   similarity (ascii_lib False) (py ''fatigued'') (py ''fatigue'') = 280 / 3 \<and>
   fuzzy_pass_v2 (ascii_lib True) (py ''Patients reported fatigued states.'') (py ''Symptom'')
     (py ''fatigue'') (py ''fatigue'')
     (dict_fromkeys (findall token_pattern_v2 (py ''Patients reported fatigued states.'')))
     ([], {}) = ([(18, 26, py ''Symptom'')], {(18, 26)}) \<and>
   fuzzy_pass_copy (ascii_lib True) (py ''Patients reported fatigued states.'') (py ''Symptom'')
     (py ''fatigue'') (py ''fatigue'')
     (dict_fromkeys (findall token_pattern_copy (py ''Patients reported fatigued states.'')))
     ([], {}) = ([(18, 26, py ''Symptom'')], {(18, 26)})"
  by code_simp

text \<open>
  C5 fails in the second file. \<open>note\<close> is in \<open>EXCLUDE_SUFFIX_TERMS\<close>, so its pattern takes
  no suffix and the exact pass finds nothing in \<open>See the notes section.\<close>; but the fuzzy
  pass of that file runs for every term without an exact match, and \<open>notes\<close> scores 800/9
  against \<open>note\<close>, so the span \<open>[8, 13, Process]\<close> is returned. The first file, whose
  fuzzy pass needs a term of six characters, returns no span.
\<close>

theorem generic_term_matches_notes:
  "py ''note'' \<in> EXCLUDE_SUFFIX_TERMS \<and>
   finditer (build_flexible_pattern_copy (py ''note'')) (py ''See the notes section.'') = [] \<and>
   similarity (ascii_lib True) (py ''notes'') (py ''note'') = 800 / 9 \<and>
   similarity (ascii_lib False) (py ''notes'') (py ''note'') = 800 / 9 \<and>
   annotate_text_copy (ascii_lib True) (PRECOMPILED_copy [(py ''Process'', [py ''note''])])
     (py ''See the notes section.'') = Inr [(8, 13, py ''Process'')] \<and>
   annotate_text_copy (ascii_lib False) (PRECOMPILED_copy [(py ''Process'', [py ''note''])])
     (py ''See the notes section.'') = Inr [(8, 13, py ''Process'')] \<and>
   annotate_text_v2 (ascii_lib True) (PRECOMPILED_v2 [(py ''Process'', [py ''note''])])
     (py ''See the notes section.'') = [] \<and>
   annotate_text_v2 (ascii_lib False) (PRECOMPILED_v2 [(py ''Process'', [py ''note''])])
     (py ''See the notes section.'') = []"
  by code_simp

section \<open>Totality of the span matcher\<close>

lemma exact_new_category: "exact_new ok text category ms used new \<Longrightarrow> a \<in> set new \<Longrightarrow> snd (snd a) = category"
  unfolding exact_new_def by fastforce

lemma exact_pass_v2_cats:
  assumes "exact_pass_v2 text category term ms (anns, used, mh) = (a1, u1, m)"
  shows "set a1 \<subseteq> set anns \<union> {a. snd (snd a) = category}"
proof -
  from exact_pass_v2_spec [OF assms] obtain new where
    "a1 = anns @ new" "exact_new (\<lambda>w. lower w = lower term) text category ms used new"
    by blast
  then show ?thesis using exact_new_category by fastforce
qed

lemma exact_pass_copy_cats:
  assumes "exact_pass_copy text category term ms (anns, used, mh) = (a1, u1, m)"
  shows "set a1 \<subseteq> set anns \<union> {a. snd (snd a) = category}"
proof -
  from exact_pass_copy_spec [OF assms] obtain new where
    "a1 = anns @ new"
    "exact_new (\<lambda>w. lightweight_lemma w = lightweight_lemma term) text category ms used new"
    by blast
  then show ?thesis using exact_new_category by fastforce
qed

lemma fuzzy_pass_v2_cats:
  "set (fst (fuzzy_pass_v2 L text category target lemma_target words st))
   \<subseteq> set (fst st) \<union> {a. snd (snd a) = category}"
  by (auto simp: fuzzy_pass_v2_first fuzzy_first_v2_def split: option.splits)

lemma fuzzy_pass_copy_cats:
  "set (fst (fuzzy_pass_copy L text category target lemma_target words st))
   \<subseteq> set (fst st) \<union> {a. snd (snd a) = category}"
  by (auto simp: fuzzy_pass_copy_first fuzzy_first_copy_def split: option.splits)

lemma term_step_v2_cats:
  "set (fst (term_step_v2 L text words category tp st))
   \<subseteq> set (fst st) \<union> {a. snd (snd a) = category}"
proof -
  obtain t0 p0 where tp: "tp = (t0, p0)" by (cases tp)
  obtain a1 u1 m where
    e: "exact_pass_v2 text category t0 (finditer p0 text) (fst st, snd st, False)
        = (a1, u1, m)"
    by (metis prod_cases3)
  note c = exact_pass_v2_cats [OF e]
  show ?thesis
  proof (cases "\<not> m \<and> MIN_FUZZY_LEN \<le> length t0")
    case True
    then have "term_step_v2 L text words category tp st
      = fuzzy_pass_v2 L text category (normalize_text_for_matching_v2 L t0)
          (lightweight_lemma (normalize_text_for_matching_v2 L t0)) words (a1, u1)"
      by (simp add: term_step_v2_def tp e Let_def)
    with fuzzy_pass_v2_cats [of L "text" category _ _ words "(a1, u1)"] c
    show ?thesis by fastforce
  next
    case False
    then have "term_step_v2 L text words category tp st = (a1, u1)"
      by (auto simp: term_step_v2_def tp e Let_def)
    with c show ?thesis by simp
  qed
qed

lemma term_step_copy_Inr:
  "\<exists>st'. term_step_copy L text words category tp st = Inr st' \<and>
         set (fst st') \<subseteq> set (fst st) \<union> {a. snd (snd a) = category}"
proof -
  obtain t0 p0 where tp: "tp = (t0, p0)" by (cases tp)
  show ?thesis
  proof (cases p0)
    case None
    then show ?thesis by (simp add: term_step_copy_def tp)
  next
    case (Some r)
    obtain a1 u1 m where
      e: "exact_pass_copy text category t0 (finditer r text) (fst st, snd st, False)
          = (a1, u1, m)"
      by (metis prod_cases3)
    note c = exact_pass_copy_cats [OF e]
    show ?thesis
    proof (cases m)
      case True
      then have "term_step_copy L text words category tp st = Inr (a1, u1)"
        by (simp add: term_step_copy_def tp Some finditer_opt_def e)
      with c show ?thesis by simp
    next
      case False
      then have "term_step_copy L text words category tp st
        = Inr (fuzzy_pass_copy L text category (normalize_text_for_matching_copy L t0)
            (lightweight_lemma (normalize_text_for_matching_copy L t0)) words (a1, u1))"
        by (simp add: term_step_copy_def tp Some finditer_opt_def e Let_def)
      with fuzzy_pass_copy_cats [of L "text" category _ _ words "(a1, u1)"] c
      show ?thesis by fastforce
    qed
  qed
qed

lemma terms_loop_copy_Inr:
  "\<exists>st'. terms_loop_copy L text words category term_list st = Inr st' \<and>
         set (fst st') \<subseteq> set (fst st) \<union> {a. snd (snd a) = category}"
proof (induction term_list arbitrary: st)
  case Nil
  show ?case by simp
next
  case (Cons tp rest)
  from term_step_copy_Inr [of L "text" words category tp st] obtain st1 where
    1: "term_step_copy L text words category tp st = Inr st1"
       "set (fst st1) \<subseteq> set (fst st) \<union> {a. snd (snd a) = category}"
    by blast
  from Cons.IH [of st1] obtain st2 where
    2: "terms_loop_copy L text words category rest st1 = Inr st2"
       "set (fst st2) \<subseteq> set (fst st1) \<union> {a. snd (snd a) = category}"
    by blast
  from 1 2 show ?case by auto
qed

lemma categories_loop_copy_Inr:
  "\<exists>st'. categories_loop_copy L text words PRE st = Inr st' \<and>
         set (fst st') \<subseteq> set (fst st) \<union> {a. snd (snd a) \<in> fst ` set PRE}"
proof (induction PRE arbitrary: st)
  case Nil
  show ?case by simp
next
  case (Cons ct rest)
  obtain category term_list where ct: "ct = (category, term_list)" by (cases ct)
  from terms_loop_copy_Inr [of L "text" words category term_list st] obtain st1 where
    1: "terms_loop_copy L text words category term_list st = Inr st1"
       "set (fst st1) \<subseteq> set (fst st) \<union> {a. snd (snd a) = category}"
    by blast
  from Cons.IH [of st1] obtain st2 where
    2: "categories_loop_copy L text words rest st1 = Inr st2"
       "set (fst st2) \<subseteq> set (fst st1) \<union> {a. snd (snd a) \<in> fst ` set rest}"
    by blast
  from 1 2 show ?case unfolding ct by auto
qed

lemma annotate_text_copy_Inr:
  "\<exists>anns. annotate_text_copy L PRE text = Inr anns \<and>
          (\<forall>a \<in> set anns. snd (snd a) \<in> fst ` set PRE)"
proof -
  let ?words = "dict_fromkeys (findall token_pattern_copy text)"
  from categories_loop_copy_Inr [of L "text" ?words PRE "([], {})"] obtain st' where
    "categories_loop_copy L text ?words PRE ([], {}) = Inr st'"
    "set (fst st') \<subseteq> {a. snd (snd a) \<in> fst ` set PRE}"
    by auto
  then show ?thesis
    by (auto simp: annotate_text_copy_def Let_def)
qed

lemma terms_fold_v2_cats:
  "set (fst (fold (term_step_v2 L text words category) term_list st))
   \<subseteq> set (fst st) \<union> {a. snd (snd a) = category}"
proof (induction term_list arbitrary: st)
  case Nil
  show ?case by simp
next
  case (Cons tp rest)
  from Cons.IH [of "term_step_v2 L text words category tp st"]
       term_step_v2_cats [of L "text" words category tp st]
  show ?case by auto
qed

lemma categories_fold_v2_cats:
  "set (fst (fold (\<lambda>(category, term_list) st.
                     fold (term_step_v2 L text words category) term_list st) PRE st))
   \<subseteq> set (fst st) \<union> {a. snd (snd a) \<in> fst ` set PRE}"
proof (induction PRE arbitrary: st)
  case Nil
  show ?case by simp
next
  case (Cons ct rest)
  obtain category term_list where ct: "ct = (category, term_list)" by (cases ct)
  from Cons.IH [of "fold (term_step_v2 L text words category) term_list st"]
       terms_fold_v2_cats [of L "text" words category term_list st]
  show ?case unfolding ct by auto
qed

lemma annotate_text_v2_cats:
  "\<forall>a \<in> set (annotate_text_v2 L PRE text). snd (snd a) \<in> fst ` set PRE"
  using categories_fold_v2_cats [of L "text" _ PRE "([], {})"]
  by (auto simp: annotate_text_v2_def Let_def)

lemma fst_PRECOMPILED_v2: "fst ` set (PRECOMPILED_v2 CATEGORIES) = fst ` set CATEGORIES"
  by (force simp: PRECOMPILED_v2_def Let_def)

lemma fst_PRECOMPILED_copy: "fst ` set (PRECOMPILED_copy CATEGORIES) = fst ` set CATEGORIES"
  by (force simp: PRECOMPILED_copy_def Let_def)

lemma PRECOMPILED_v2_no_short:
  "(category, term_list) \<in> set (PRECOMPILED_v2 CATEGORIES) \<Longrightarrow>
   (term, pattern) \<in> set term_list \<Longrightarrow> MIN_TERM_LEN \<le> length term"
  by (auto simp: PRECOMPILED_v2_def Let_def sorted_by_len_desc_def)

lemma terms_loop_copy_skip_None:
  "terms_loop_copy L text words category term_list st
   = terms_loop_copy L text words category (filter (\<lambda>(t, p). p \<noteq> None) term_list) st"
proof (induction term_list arbitrary: st)
  case Nil
  show ?case by simp
next
  case (Cons tp rest)
  obtain t0 p0 where tp: "tp = (t0, p0)" by (cases tp)
  show ?case
  proof (cases p0)
    case None
    then show ?thesis using Cons.IH by (simp add: tp term_step_copy_def)
  next
    case (Some r)
    then show ?thesis using Cons.IH by (simp add: tp split: sum.split)
  qed
qed

lemma categories_loop_copy_skip_None:
  "categories_loop_copy L text words PRE st
   = categories_loop_copy L text words
       (map (\<lambda>(c, tl). (c, filter (\<lambda>(t, p). p \<noteq> None) tl)) PRE) st"
proof (induction PRE arbitrary: st)
  case Nil
  show ?case by simp
next
  case (Cons ct rest)
  obtain category term_list where ct: "ct = (category, term_list)" by (cases ct)
  show ?case
    using Cons.IH terms_loop_copy_skip_None [of L "text" words category term_list st]
    by (simp add: ct split: sum.split)
qed

text \<open>
  C9. In the second file the one operation of \<open>annotate_text\<close> that can raise is the call
  of \<open>finditer\<close> on a pattern that is \<open>None\<close>; the test \<open>if pattern is None: continue\<close>
  comes first, so for every text and every index, also one with patterns that are \<open>None\<close>,
  the call returns a list, and the entries without a pattern change nothing. (As the file
  stands, \<open>PRECOMPILED_copy\<close> holds no such entry.) In the first file nothing can raise:
  the terms shorter than \<open>MIN_TERM_LEN\<close> never reach the index. In both files every triple
  returned carries a category of the dictionary.
\<close>

theorem annotate_text_total:
  "(\<exists>anns. annotate_text_copy L PRE text = Inr anns) \<and>
   annotate_text_copy L PRE text
     = annotate_text_copy L (map (\<lambda>(c, tl). (c, filter (\<lambda>(t, p). p \<noteq> None) tl)) PRE) text \<and>
   (\<forall>(c, tl) \<in> set (PRECOMPILED_v2 CATEGORIES). \<forall>(t, p) \<in> set tl. MIN_TERM_LEN \<le> length t) \<and>
   (\<forall>(s, e, c) \<in> set (annotate_text_v2 L (PRECOMPILED_v2 CATEGORIES) text).
      c \<in> fst ` set CATEGORIES) \<and>
   (\<forall>anns. annotate_text_copy L (PRECOMPILED_copy CATEGORIES) text = Inr anns \<longrightarrow>
      (\<forall>(s, e, c) \<in> set anns. c \<in> fst ` set CATEGORIES))"
proof (intro conjI)
  show "\<exists>anns. annotate_text_copy L PRE text = Inr anns"
    using annotate_text_copy_Inr [of L PRE "text"] by blast
  show "annotate_text_copy L PRE text
     = annotate_text_copy L (map (\<lambda>(c, tl). (c, filter (\<lambda>(t, p). p \<noteq> None) tl)) PRE) text"
    unfolding annotate_text_copy_def Let_def
    by (subst categories_loop_copy_skip_None) (rule refl)
  show "\<forall>(c, tl) \<in> set (PRECOMPILED_v2 CATEGORIES). \<forall>(t, p) \<in> set tl. MIN_TERM_LEN \<le> length t"
    using PRECOMPILED_v2_no_short by blast
  show "\<forall>(s, e, c) \<in> set (annotate_text_v2 L (PRECOMPILED_v2 CATEGORIES) text).
      c \<in> fst ` set CATEGORIES"
    using annotate_text_v2_cats [of L "PRECOMPILED_v2 CATEGORIES" "text"]
    by (simp add: fst_PRECOMPILED_v2 case_prod_beta)
  show "\<forall>anns. annotate_text_copy L (PRECOMPILED_copy CATEGORIES) text = Inr anns \<longrightarrow>
      (\<forall>(s, e, c) \<in> set anns. c \<in> fst ` set CATEGORIES)"
    using annotate_text_copy_Inr [of L "PRECOMPILED_copy CATEGORIES" "text"]
    by (auto simp: fst_PRECOMPILED_copy case_prod_beta)
qed

lemma heart_copy_with_None:
  "annotate_text_copy (ascii_lib True)
     [(py ''A'', [(py ''ab'', None),
                  (py ''heart'', Some (build_flexible_pattern_copy (py ''heart'')))])]
     (py ''acute heart failure onset'') = Inr [(6, 11, py ''A'')]"
  by code_simp

lemma heart_v2_with_short:
  "annotate_text_v2 (ascii_lib True) (PRECOMPILED_v2 [(py ''A'', [py ''a'', py ''heart''])])
     (py ''acute heart failure onset'') = [(6, 11, py ''A'')]"
  by code_simp

lemma heart_copy_with_short:
  "annotate_text_copy (ascii_lib True) (PRECOMPILED_copy [(py ''A'', [py ''a'', py ''heart''])])
     (py ''acute heart failure onset'') = Inr [(6, 11, py ''A'')]"
  by code_simp

lemma heart_index_v2:
  "PRECOMPILED_v2 [(py ''A'', [py ''a'', py ''heart''])]
   = [(py ''A'', [(py ''heart'', build_flexible_pattern_v2 (py ''heart''))])]"
  by code_simp

theorem annotate_text_total_witness:
  "annotate_text_copy (ascii_lib True)
     [(py ''A'', [(py ''ab'', None),
                  (py ''heart'', Some (build_flexible_pattern_copy (py ''heart'')))])]
     (py ''acute heart failure onset'') = Inr [(6, 11, py ''A'')] \<and>
   annotate_text_copy (ascii_lib True)
     (map (\<lambda>(c, tl). (c, filter (\<lambda>(t, p). p \<noteq> None) tl))
        [(py ''A'', [(py ''ab'', None),
                     (py ''heart'', Some (build_flexible_pattern_copy (py ''heart'')))])])
     (py ''acute heart failure onset'') = Inr [(6, 11, py ''A'')] \<and>
   MIN_TERM_LEN \<le> length (py ''heart'') \<and>
   annotate_text_v2 (ascii_lib True) (PRECOMPILED_v2 [(py ''A'', [py ''a'', py ''heart''])])
     (py ''acute heart failure onset'') = [(6, 11, py ''A'')] \<and>
   py ''A'' \<in> fst ` set [(py ''A'', [py ''a'', py ''heart''])] \<and>
   annotate_text_copy (ascii_lib True) (PRECOMPILED_copy [(py ''A'', [py ''a'', py ''heart''])])
     (py ''acute heart failure onset'') = Inr [(6, 11, py ''A'')]"
proof -
  note t = annotate_text_total
    [of "ascii_lib True"
        "[(py ''A'', [(py ''ab'', None),
                      (py ''heart'', Some (build_flexible_pattern_copy (py ''heart'')))])]"
        "py ''acute heart failure onset''"
        "[(py ''A'', [py ''a'', py ''heart''])]"]
  from t have 2: "annotate_text_copy (ascii_lib True)
     (map (\<lambda>(c, tl). (c, filter (\<lambda>(t, p). p \<noteq> None) tl))
        [(py ''A'', [(py ''ab'', None),
                     (py ''heart'', Some (build_flexible_pattern_copy (py ''heart'')))])])
     (py ''acute heart failure onset'') = Inr [(6, 11, py ''A'')]"
    using heart_copy_with_None by metis
  from t have "\<forall>(c, tl) \<in> set (PRECOMPILED_v2 [(py ''A'', [py ''a'', py ''heart''])]).
                 \<forall>(t, p) \<in> set tl. MIN_TERM_LEN \<le> length t"
    by blast
  then have 3: "MIN_TERM_LEN \<le> length (py ''heart'')"
    unfolding heart_index_v2 by simp
  from t have "\<forall>(s, e, c) \<in> set (annotate_text_v2 (ascii_lib True)
                   (PRECOMPILED_v2 [(py ''A'', [py ''a'', py ''heart''])])
                   (py ''acute heart failure onset'')).
                 c \<in> fst ` set [(py ''A'', [py ''a'', py ''heart''])]"
    by blast
  then have 4: "py ''A'' \<in> fst ` set [(py ''A'', [py ''a'', py ''heart''])]"
    unfolding heart_v2_with_short by simp
  from 2 3 4 heart_copy_with_None heart_v2_with_short heart_copy_with_short
  show ?thesis by (intro conjI)
qed

section \<open>The normalizer\<close>

subsection \<open>The matcher on the two patterns of \<open>clean_text\<close>\<close>

lemma space_run_nth:
  "k < length (takeWhile is_space (drop i t)) \<Longrightarrow> is_space (t ! (i + k))"
proof -
  assume k: "k < length (takeWhile is_space (drop i t))"
  then have "takeWhile is_space (drop i t) ! k \<in> set (takeWhile is_space (drop i t))"
    by simp
  then have "is_space (takeWhile is_space (drop i t) ! k)"
    by (meson set_takeWhileD)
  moreover have "takeWhile is_space (drop i t) ! k = drop i t ! k"
    using k by (rule takeWhile_nth)
  moreover have "i + k < length t"
    using k length_takeWhile_le [of is_space "drop i t"] by simp
  ultimately show ?thesis by simp
qed

lemma space_run_bound: "i + length (takeWhile is_space (drop i t)) \<le> max i (length t)"
  using length_takeWhile_le [of is_space "drop i t"] by simp

lemma space_run_pos:
  "i < length t \<Longrightarrow> is_space (t ! i) \<Longrightarrow> 0 < length (takeWhile is_space (drop i t))"
  by (simp add: Cons_nth_drop_Suc [symmetric])

lemma space_run_zero:
  "\<not> (i < length t \<and> is_space (t ! i)) \<Longrightarrow> length (takeWhile is_space (drop i t)) = 0"
  by (cases "i < length t") (auto simp: Cons_nth_drop_Suc [symmetric])

lemma rev_upt_Suc: "rev [m..<Suc n] = (if m \<le> n then n # rev [m..<n] else [])"
  by simp

lemma ends_Spaces:
  "ends t Spaces i =
     (let n = length (takeWhile is_space (drop i t))
      in if 0 < n then (i + n) # map (\<lambda>k. i + k) (rev [1..<n]) else [])"
  by (cases "length (takeWhile is_space (drop i t))") (auto simp: Let_def)

lemma ends_Opt_Spaces:
  "ends t (Opt Spaces) i =
     (let n = length (takeWhile is_space (drop i t))
      in (i + n) # map (\<lambda>k. i + k) (rev [0..<n]))"
proof -
  let ?n = "length (takeWhile is_space (drop i t))"
  let ?f = "\<lambda>k. i + k"
  have a: "[0..<Suc ?n] = 0 # [Suc 0..<Suc ?n]"
    by (rule upt_conv_Cons) simp
  have "map ?f (rev [Suc 0..<Suc ?n]) @ [i] = map ?f (rev (0 # [Suc 0..<Suc ?n]))"
    by simp
  also have "\<dots> = map ?f (rev [0..<Suc ?n])"
    by (simp only: a [symmetric])
  also have "\<dots> = (i + ?n) # map ?f (rev [0..<?n])"
    by simp
  finally show ?thesis
    by (simp add: Let_def)
qed

lemma match_at_Spaces:
  "match_at t Spaces i False =
     (if i < length t \<and> is_space (t ! i)
      then Some (i + length (takeWhile is_space (drop i t))) else None)"
proof (cases "i < length t \<and> is_space (t ! i)")
  case True
  then have "0 < length (takeWhile is_space (drop i t))"
    using space_run_pos by blast
  with True show ?thesis
    unfolding match_at_def ends_Spaces by (simp add: Let_def)
next
  case False
  then have "length (takeWhile is_space (drop i t)) = 0"
    by (rule space_run_zero)
  with False show ?thesis
    unfolding match_at_def ends_Spaces by (simp add: Let_def)
qed

lemma concat_map_all_Nil: "(\<And>x. x \<in> set xs \<Longrightarrow> f x = []) \<Longrightarrow> concat (map f xs) = []"
  by (induction xs) auto

lemma ends_hyphen_tail:
  "ends t (Seq (Chr 45) (Opt Spaces)) j =
     (if j < length t \<and> t ! j = 45 then ends t (Opt Spaces) (Suc j) else [])"
  by simp

lemma not_space_hyphen: "\<not> is_space 45"
  by (simp add: is_space_def)

lemma ends_hyphen_pattern:
  "ends t hyphen_pattern i =
     ends t (Seq (Chr 45) (Opt Spaces)) (i + length (takeWhile is_space (drop i t)))"
proof -
  let ?n = "length (takeWhile is_space (drop i t))"
  let ?f = "ends t (Seq (Chr 45) (Opt Spaces))"
  have "?f (i + k) = []" if "k \<in> set (rev [0..<?n])" for k
  proof -
    from that have "k < ?n" by simp
    then have "is_space (t ! (i + k))" by (rule space_run_nth)
    then have "t ! (i + k) \<noteq> 45" using not_space_hyphen by metis
    then show ?thesis by simp
  qed
  then have "concat (map (\<lambda>k. ?f (i + k)) (rev [0..<?n])) = []"
    by (rule concat_map_all_Nil)
  then have "concat (map ?f (map (\<lambda>k. i + k) (rev [0..<?n]))) = []"
    by (simp only: map_map comp_def)
  then show ?thesis
    unfolding hyphen_pattern_def
    by (simp only: ends.simps(6) ends_Opt_Spaces Let_def list.map concat.simps append_Nil2)
qed

lemma match_at_hyphen_pattern:
  "match_at t hyphen_pattern i False =
     (let j = i + length (takeWhile is_space (drop i t))
      in if j < length t \<and> t ! j = 45
         then Some (Suc j + length (takeWhile is_space (drop (Suc j) t))) else None)"
  unfolding match_at_def ends_hyphen_pattern ends_hyphen_tail ends_Opt_Spaces
  by (simp add: Let_def)

subsection \<open>\<open>re_sub\<close> on the two patterns\<close>

lemma finditer_from_first:
  "finditer_from t r i adv = (s, e) # ms \<Longrightarrow> i \<le> s"
proof (induction t r i adv rule: finditer_from.induct)
  case (1 t r i must_advance)
  show ?case
  proof (cases "length t < i")
    case True
    with "1.prems" show ?thesis by simp
  next
    case False
    show ?thesis
    proof (cases "match_at t r i must_advance")
      case None
      with False "1.prems" have "finditer_from t r (Suc i) False = (s, e) # ms"
        by simp
      with "1.IH"(1) [OF False None] show ?thesis by simp
    next
      case (Some e')
      with False "1.prems" show ?thesis by simp
    qed
  qed
qed

lemma splice_skip:
  assumes "i < length t" and "ms = [] \<or> i < fst (hd ms)"
  shows "splice repl t i ms = t ! i # splice repl t (Suc i) ms"
proof (cases ms)
  case Nil
  with assms(1) show ?thesis by (simp add: Cons_nth_drop_Suc)
next
  case (Cons m ms')
  obtain s e where m: "m = (s, e)" by (cases m)
  with Cons assms(2) have "i < s" by simp
  then obtain d where d: "s - i = Suc d" "s - Suc i = d"
    by (metis Suc_diff_Suc)
  have "slice t i s = t ! i # slice t (Suc i) s"
    using assms(1) by (simp add: slice_def d Cons_nth_drop_Suc [symmetric])
  with Cons m show ?thesis by simp
qed

lemma resub_step_match:
  assumes "i \<le> length t" and "match_at t r i False = Some e" and "i < e"
  shows "splice repl t i (finditer_from t r i False)
         = repl @ splice repl t e (finditer_from t r e False)"
proof -
  from assms have "finditer_from t r i False = (i, e) # finditer_from t r e False"
    by (subst finditer_from.simps) simp
  then show ?thesis by (simp add: slice_def)
qed

lemma resub_step_nomatch:
  assumes "i < length t" and "match_at t r i False = None"
  shows "splice repl t i (finditer_from t r i False)
         = t ! i # splice repl t (Suc i) (finditer_from t r (Suc i) False)"
proof -
  let ?ms = "finditer_from t r (Suc i) False"
  from assms have eq: "finditer_from t r i False = ?ms"
    by (subst finditer_from.simps) simp
  have "?ms = [] \<or> i < fst (hd ?ms)"
  proof (cases ?ms)
    case Nil
    then show ?thesis by simp
  next
    case (Cons m ms')
    obtain s e where "m = (s, e)" by (cases m)
    with Cons finditer_from_first [of t r "Suc i" False s e ms'] show ?thesis by simp
  qed
  with assms(1) show ?thesis
    unfolding eq by (rule splice_skip)
qed

lemma resub_end:
  assumes "match_at t r (length t) False = None"
  shows "splice repl t (length t) (finditer_from t r (length t) False) = []"
proof -
  have "finditer_from t r (Suc (length t)) False = []"
    by (subst finditer_from.simps) simp
  with assms have "finditer_from t r (length t) False = []"
    by (subst finditer_from.simps) simp
  then show ?thesis by simp
qed

lemma drop_space_run:
  "dropWhile is_space (drop i t) = drop (i + length (takeWhile is_space (drop i t))) t"
  by (simp add: dropWhile_eq_drop [of is_space "drop i t"] add.commute)

lemma re_sub_Spaces_from:
  "i \<le> length t \<Longrightarrow>
   splice [32] t i (finditer_from t Spaces i False) = sub_spaces (drop i t)"
proof (induction "length t - i" arbitrary: i rule: less_induct)
  case less
  show ?case
  proof (cases "i < length t")
    case False
    with less.prems have i: "i = length t" by simp
    have "match_at t Spaces (length t) False = None"
      by (simp add: match_at_Spaces)
    from resub_end [OF this] show ?thesis by (simp add: i)
  next
    case True
    then have d: "drop i t = t ! i # drop (Suc i) t"
      by (simp add: Cons_nth_drop_Suc)
    show ?thesis
    proof (cases "is_space (t ! i)")
      case sp: True
      let ?e = "i + length (takeWhile is_space (drop i t))"
      have m: "match_at t Spaces i False = Some ?e"
        using True sp by (simp add: match_at_Spaces)
      have pos: "i < ?e"
        using space_run_pos [OF True sp] by simp
      have le: "?e \<le> length t"
        using space_run_bound [of i t] True by simp
      have "dropWhile is_space (drop i t) = dropWhile is_space (drop (Suc i) t)"
        by (simp add: d sp)
      then have dw: "dropWhile is_space (drop (Suc i) t) = drop ?e t"
        using drop_space_run [of i t] by simp
      have "splice [32] t i (finditer_from t Spaces i False)
            = [32] @ splice [32] t ?e (finditer_from t Spaces ?e False)"
        using less.prems m pos by (rule resub_step_match)
      also have "splice [32] t ?e (finditer_from t Spaces ?e False) = sub_spaces (drop ?e t)"
      proof -
        have "length t - ?e < length t - i" using pos le by linarith
        then show ?thesis using le by (rule less.hyps)
      qed
      finally show ?thesis
        by (simp add: d sp dw)
    next
      case nsp: False
      have m: "match_at t Spaces i False = None"
        using nsp by (simp add: match_at_Spaces)
      have "splice [32] t i (finditer_from t Spaces i False)
            = t ! i # splice [32] t (Suc i) (finditer_from t Spaces (Suc i) False)"
        using True m by (rule resub_step_nomatch)
      also have "splice [32] t (Suc i) (finditer_from t Spaces (Suc i) False)
                 = sub_spaces (drop (Suc i) t)"
      proof -
        have "length t - Suc i < length t - i" "Suc i \<le> length t"
          using True by linarith+
        then show ?thesis by (rule less.hyps)
      qed
      finally show ?thesis
        by (simp add: d nsp)
    qed
  qed
qed

lemma re_sub_Spaces: "re_sub Spaces [32] t = sub_spaces t"
  using re_sub_Spaces_from [of 0 t] by (simp add: re_sub_def finditer_def)

lemma re_sub_hyphen_from:
  "i \<le> length t \<Longrightarrow>
   splice [45] t i (finditer_from t hyphen_pattern i False) = sub_hyphens (drop i t)"
proof (induction "length t - i" arbitrary: i rule: less_induct)
  case less
  define j where "j = i + length (takeWhile is_space (drop i t))"
  define e where "e = Suc j + length (takeWhile is_space (drop (Suc j) t))"
  have mt: "match_at t hyphen_pattern i False
            = (if j < length t \<and> t ! j = 45 then Some e else None)"
    by (simp add: match_at_hyphen_pattern Let_def j_def e_def)
  have u: "dropWhile is_space (drop i t) = drop j t"
    unfolding j_def by (rule drop_space_run)
  have dw: "dropWhile is_space (drop (Suc j) t) = drop e t"
    unfolding e_def by (rule drop_space_run)
  have ij: "i \<le> j" by (simp add: j_def)
  show ?case
  proof (cases "i < length t")
    case False
    with less.prems have i: "i = length t" by simp
    with ij have "match_at t hyphen_pattern (length t) False = None"
      using mt by simp
    from resub_end [OF this] show ?thesis by (simp add: i)
  next
    case True
    then have d: "drop i t = t ! i # drop (Suc i) t"
      by (simp add: Cons_nth_drop_Suc)
    have sh: "sub_hyphens (drop i t)
              = (if drop j t \<noteq> [] \<and> hd (drop j t) = 45
                 then 45 # sub_hyphens (dropWhile is_space (tl (drop j t)))
                 else t ! i # sub_hyphens (drop (Suc i) t))"
    proof -
      have "sub_hyphens (t ! i # drop (Suc i) t)
            = (let u = dropWhile is_space (t ! i # drop (Suc i) t)
               in if u \<noteq> [] \<and> hd u = 45
                  then 45 # sub_hyphens (dropWhile is_space (tl u))
                  else t ! i # sub_hyphens (drop (Suc i) t))"
        by (rule sub_hyphens.simps(2))
      then show ?thesis
        unfolding d [symmetric] u Let_def .
    qed
    show ?thesis
    proof (cases "j < length t \<and> t ! j = 45")
      case hy: True
      have m: "match_at t hyphen_pattern i False = Some e"
        using hy mt by simp
      have pos: "i < e" using ij by (simp add: e_def)
      have le: "e \<le> length t"
        using space_run_bound [of "Suc j" t] hy by (simp add: e_def)
      have ne: "drop j t \<noteq> [] \<and> hd (drop j t) = 45"
        using hy by (simp add: hd_drop_conv_nth)
      have tl: "tl (drop j t) = drop (Suc j) t"
        by (simp add: drop_Suc tl_drop)
      have rhs: "sub_hyphens (drop i t) = 45 # sub_hyphens (drop e t)"
        using ne by (simp add: sh tl dw)
      have "splice [45] t i (finditer_from t hyphen_pattern i False)
            = [45] @ splice [45] t e (finditer_from t hyphen_pattern e False)"
        using less.prems m pos by (rule resub_step_match)
      also have "splice [45] t e (finditer_from t hyphen_pattern e False)
                 = sub_hyphens (drop e t)"
      proof -
        have "length t - e < length t - i" using pos le by linarith
        then show ?thesis using le by (rule less.hyps)
      qed
      finally show ?thesis
        by (simp only: rhs append_Cons append_Nil)
    next
      case nhy: False
      have m: "match_at t hyphen_pattern i False = None"
        using nhy mt by simp
      have c: "\<not> (drop j t \<noteq> [] \<and> hd (drop j t) = 45)"
        using nhy by (auto simp: hd_drop_conv_nth)
      have rhs: "sub_hyphens (drop i t) = t ! i # sub_hyphens (drop (Suc i) t)"
        using c by (simp only: sh if_False)
      have "splice [45] t i (finditer_from t hyphen_pattern i False)
            = t ! i # splice [45] t (Suc i) (finditer_from t hyphen_pattern (Suc i) False)"
        using True m by (rule resub_step_nomatch)
      also have "splice [45] t (Suc i) (finditer_from t hyphen_pattern (Suc i) False)
                 = sub_hyphens (drop (Suc i) t)"
      proof -
        have "length t - Suc i < length t - i" "Suc i \<le> length t"
          using True by linarith+
        then show ?thesis by (rule less.hyps)
      qed
      finally show ?thesis
        by (simp only: rhs)
    qed
  qed
qed

lemma re_sub_hyphen: "re_sub hyphen_pattern [45] t = sub_hyphens t"
  using re_sub_hyphen_from [of 0 t] by (simp add: re_sub_def finditer_def)

subsection \<open>The shape of a cleaned text\<close>

lemma neat_pair_sym: "neat_pair a b = neat_pair b a"
  by (auto simp: neat_pair_def)

lemma successively_suffix: "successively P (xs @ ys) \<Longrightarrow> successively P ys"
  by (simp add: successively_append_iff)

lemma successively_prefix: "successively P (xs @ ys) \<Longrightarrow> successively P xs"
  by (simp add: successively_append_iff)

lemma successively_dropWhile: "successively P xs \<Longrightarrow> successively P (dropWhile Q xs)"
  using successively_suffix [of P "takeWhile Q xs" "dropWhile Q xs"] by simp

lemma successively_tail: "successively P (x # xs) \<Longrightarrow> successively P xs"
  by (cases xs) simp_all

lemma successively_ConsI:
  "successively P xs \<Longrightarrow> (xs \<noteq> [] \<Longrightarrow> P x (hd xs)) \<Longrightarrow> successively P (x # xs)"
  by (cases xs) auto

text \<open>What \<open>sub_hyphens\<close> and \<open>sub_spaces\<close> start with.\<close>

lemma sub_hyphens_Nil_iff: "sub_hyphens t = [] \<longleftrightarrow> t = []"
  by (cases t) (simp_all add: Let_def)

lemma sub_spaces_Nil_iff: "sub_spaces t = [] \<longleftrightarrow> t = []"
  by (cases t) simp_all

lemma hd_sub_spaces: "t \<noteq> [] \<Longrightarrow> hd (sub_spaces t) = (if is_space (hd t) then 32 else hd t)"
  by (cases t) simp_all

lemma hd_sub_hyphens:
  "t \<noteq> [] \<Longrightarrow>
   hd (sub_hyphens t)
   = (if dropWhile is_space t \<noteq> [] \<and> hd (dropWhile is_space t) = 45 then 45 else hd t)"
  by (cases t) (simp_all add: Let_def)

lemma sub_hyphens_Cons:
  "sub_hyphens (c # cs)
   = (if dropWhile is_space (c # cs) \<noteq> [] \<and> hd (dropWhile is_space (c # cs)) = 45
      then 45 # sub_hyphens (dropWhile is_space (tl (dropWhile is_space (c # cs))))
      else c # sub_hyphens cs)"
  by (simp only: sub_hyphens.simps Let_def)

lemma sub_hyphens_hy: "successively hy_pair (sub_hyphens t)"
proof (induction t rule: sub_hyphens.induct)
  case 1
  show ?case by simp
next
  case (2 c cs)
  let ?u = "dropWhile is_space (c # cs)"
  show ?case
  proof (cases "?u \<noteq> [] \<and> hd ?u = 45")
    case True
    let ?v = "dropWhile is_space (tl ?u)"
    have eq: "sub_hyphens (c # cs) = 45 # sub_hyphens ?v"
      by (subst sub_hyphens_Cons) (rule if_P [OF True])
    have ih: "successively hy_pair (sub_hyphens ?v)"
      using "2.IH"(1) [OF refl True] .
    have "hy_pair 45 (hd (sub_hyphens ?v))" if "sub_hyphens ?v \<noteq> []"
    proof -
      from that have ne: "?v \<noteq> []" by (simp add: sub_hyphens_Nil_iff)
      then have ns: "\<not> is_space (hd ?v)" by (rule hd_dropWhile)
      have "hd (sub_hyphens ?v) = 45 \<or> hd (sub_hyphens ?v) = hd ?v"
        using ne by (simp add: hd_sub_hyphens)
      with ns have "\<not> is_space (hd (sub_hyphens ?v))"
        using not_space_hyphen by metis
      then show ?thesis
        by (simp add: hy_pair_def not_space_hyphen)
    qed
    with ih show ?thesis
      unfolding eq by (intro successively_ConsI)
  next
    case False
    have eq: "sub_hyphens (c # cs) = c # sub_hyphens cs"
      by (subst sub_hyphens_Cons) (rule if_not_P [OF False])
    have ih: "successively hy_pair (sub_hyphens cs)"
      using "2.IH"(2) [OF refl False] .
    have "hy_pair c (hd (sub_hyphens cs))" if "sub_hyphens cs \<noteq> []"
    proof -
      from that have ne: "cs \<noteq> []" by (simp add: sub_hyphens_Nil_iff)
      let ?w = "dropWhile is_space cs"
      have c45: "c \<noteq> 45"
      proof
        assume "c = 45"
        then have "?u = c # cs" by (simp add: not_space_hyphen)
        with \<open>c = 45\<close> False show False by simp
      qed
      show ?thesis
      proof (cases "?w \<noteq> [] \<and> hd ?w = 45")
        case True
        have "hd (sub_hyphens cs) = 45"
          unfolding hd_sub_hyphens [OF ne] by (rule if_P [OF True])
        moreover have "\<not> is_space c"
        proof
          assume "is_space c"
          then have "?u = ?w" by simp
          with True False show False by simp
        qed
        ultimately show ?thesis using c45 by (simp add: hy_pair_def)
      next
        case w: False
        have h: "hd (sub_hyphens cs) = hd cs"
          unfolding hd_sub_hyphens [OF ne] by (rule if_not_P [OF w])
        have "hd cs \<noteq> 45" if "is_space c"
        proof
          assume h45: "hd cs = 45"
          then have "\<not> is_space (hd cs)" by (simp add: not_space_hyphen)
          with ne have "?w = cs" by (cases cs) simp_all
          with w ne h45 show False by simp
        qed
        with c45 show ?thesis by (auto simp: hy_pair_def h)
      qed
    qed
    with ih show ?thesis
      unfolding eq by (intro successively_ConsI)
  qed
qed

lemma space_32: "is_space 32"
  by (simp add: is_space_def)

lemma run_then_not_hyphen:
  "successively hy_pair (c # cs) \<Longrightarrow> is_space c \<Longrightarrow> dropWhile is_space cs \<noteq> [] \<Longrightarrow>
   hd (dropWhile is_space cs) \<noteq> 45"
proof (induction cs arbitrary: c)
  case Nil
  then show ?case by simp
next
  case (Cons a as)
  show ?case
  proof (cases "is_space a")
    case True
    with Cons.prems have "successively hy_pair (a # as)" "dropWhile is_space as \<noteq> []"
      by simp_all
    from Cons.IH [OF this(1) True this(2)] True show ?thesis by simp
  next
    case False
    from Cons.prems(1,2) have "a \<noteq> 45" by (auto simp: hy_pair_def)
    with False show ?thesis by simp
  qed
qed

lemma sub_spaces_neat:
  "successively hy_pair t \<Longrightarrow> successively neat_pair (sub_spaces t)"
proof (induction t rule: sub_spaces.induct)
  case 1
  show ?case by simp
next
  case (2 c cs)
  from "2.prems" have cs: "successively hy_pair cs"
    by (rule successively_tail)
  show ?case
  proof (cases "is_space c")
    case True
    let ?u = "dropWhile is_space cs"
    have ih: "successively neat_pair (sub_spaces ?u)"
      using cs by (intro "2.IH"(1) [OF True] successively_dropWhile)
    have "neat_pair 32 (hd (sub_spaces ?u))" if "sub_spaces ?u \<noteq> []"
    proof -
      from that have ne: "?u \<noteq> []" by (simp add: sub_spaces_Nil_iff)
      then have ns: "\<not> is_space (hd ?u)" by (rule hd_dropWhile)
      have "hd ?u \<noteq> 45"
        using "2.prems" True ne by (rule run_then_not_hyphen)
      moreover have "hd (sub_spaces ?u) = hd ?u"
        using ns by (simp only: hd_sub_spaces [OF ne] if_False)
      ultimately show ?thesis using ns by (simp add: neat_pair_def)
    qed
    with ih have "successively neat_pair (32 # sub_spaces ?u)"
      by (intro successively_ConsI)
    with True show ?thesis by simp
  next
    case False
    have ih: "successively neat_pair (sub_spaces cs)"
      using cs by (rule "2.IH"(2) [OF False])
    have "neat_pair c (hd (sub_spaces cs))" if "sub_spaces cs \<noteq> []"
    proof -
      from that have ne: "cs \<noteq> []" by (simp add: sub_spaces_Nil_iff)
      have "\<not> is_space (hd (sub_spaces cs))" if "c = 45"
      proof -
        from "2.prems" ne that have "\<not> is_space (hd cs)"
          by (cases cs) (auto simp: hy_pair_def)
        then show ?thesis by (simp add: hd_sub_spaces [OF ne])
      qed
      with False show ?thesis by (auto simp: neat_pair_def)
    qed
    with ih have "successively neat_pair (c # sub_spaces cs)"
      by (intro successively_ConsI)
    with False show ?thesis by simp
  qed
qed

lemma sub_spaces_plain: "c \<in> set (sub_spaces t) \<Longrightarrow> is_space c \<Longrightarrow> c = 32"
proof (induction t rule: sub_spaces.induct)
  case 1
  then show ?case by simp
next
  case (2 a as)
  then show ?case by (cases "is_space a") auto
qed

lemma set_sub_spaces: "set (sub_spaces t) \<subseteq> insert 32 (set t)"
proof (induction t rule: sub_spaces.induct)
  case 1
  show ?case by simp
next
  case (2 a as)
  show ?case
  proof (cases "is_space a")
    case True
    with "2.IH"(1) [OF True] set_dropWhileD [of _ is_space as] show ?thesis by auto
  next
    case False
    with "2.IH"(2) [OF False] show ?thesis by auto
  qed
qed

lemma set_sub_hyphens: "set (sub_hyphens t) \<subseteq> insert 45 (set t)"
proof (induction t rule: sub_hyphens.induct)
  case 1
  show ?case by simp
next
  case (2 c cs)
  let ?u = "dropWhile is_space (c # cs)"
  show ?case
  proof (cases "?u \<noteq> [] \<and> hd ?u = 45")
    case True
    have eq: "sub_hyphens (c # cs) = 45 # sub_hyphens (dropWhile is_space (tl ?u))"
      by (subst sub_hyphens_Cons) (rule if_P [OF True])
    have "set (dropWhile is_space (tl ?u)) \<subseteq> set (tl ?u)"
      by (auto dest: set_dropWhileD)
    also have "\<dots> \<subseteq> set ?u"
      using True by (cases ?u) auto
    also have "\<dots> \<subseteq> set (c # cs)"
      by (auto dest: set_dropWhileD)
    finally show ?thesis
      using "2.IH"(1) [OF refl True] unfolding eq by auto
  next
    case False
    have eq: "sub_hyphens (c # cs) = c # sub_hyphens cs"
      by (subst sub_hyphens_Cons) (rule if_not_P [OF False])
    show ?thesis
      using "2.IH"(2) [OF refl False] unfolding eq by auto
  qed
qed

lemma sub_hyphens_id: "successively hy_pair r \<Longrightarrow> sub_hyphens r = r"
proof (induction r)
  case Nil
  show ?case by simp
next
  case (Cons c cs)
  from Cons.prems have cs: "successively hy_pair cs"
    by (rule successively_tail)
  note ih = Cons.IH [OF cs]
  let ?u = "dropWhile is_space (c # cs)"
  show ?case
  proof (cases "c = 45")
    case True
    then have u: "?u = c # cs" by (simp add: not_space_hyphen)
    have cond: "?u \<noteq> [] \<and> hd ?u = 45" unfolding u by (simp add: True)
    have "dropWhile is_space cs = cs"
    proof (cases cs)
      case Nil
      then show ?thesis by simp
    next
      case (Cons a as)
      with Cons.prems True have "\<not> is_space a" by (auto simp: hy_pair_def)
      with Cons show ?thesis by simp
    qed
    then have "sub_hyphens (dropWhile is_space (tl ?u)) = cs"
      unfolding u by (simp add: ih)
    then have "45 # sub_hyphens (dropWhile is_space (tl ?u)) = c # cs"
      by (simp add: True)
    then show ?thesis
      by (subst sub_hyphens_Cons) (simp only: if_P [OF cond])
  next
    case False
    have cond: "\<not> (?u \<noteq> [] \<and> hd ?u = 45)"
    proof (cases "is_space c")
      case sp: True
      then have u: "?u = dropWhile is_space cs" by simp
      show ?thesis
        unfolding u using run_then_not_hyphen [OF Cons.prems sp] by blast
    next
      case nsp: False
      then have "?u = c # cs" by simp
      with False show ?thesis by simp
    qed
    show ?thesis
      by (subst sub_hyphens_Cons) (simp only: if_not_P [OF cond] ih)
  qed
qed

lemma sub_spaces_id:
  "successively neat_pair r \<Longrightarrow> (\<And>c. c \<in> set r \<Longrightarrow> is_space c \<Longrightarrow> c = 32) \<Longrightarrow>
   sub_spaces r = r"
proof (induction r)
  case Nil
  show ?case by simp
next
  case (Cons c cs)
  from Cons.prems(1) have cs: "successively neat_pair cs"
    by (rule successively_tail)
  have ih: "sub_spaces cs = cs"
    using cs Cons.prems(2) by (intro Cons.IH) auto
  show ?case
  proof (cases "is_space c")
    case True
    then have c: "c = 32" using Cons.prems(2) by simp
    have "dropWhile is_space cs = cs"
    proof (cases cs)
      case Nil
      then show ?thesis by simp
    next
      case (Cons a as)
      with Cons.prems(1) True have "\<not> is_space a" by (auto simp: neat_pair_def)
      with Cons show ?thesis by simp
    qed
    with True c ih show ?thesis by simp
  next
    case False
    with ih show ?thesis by simp
  qed
qed

subsection \<open>Cleaning a cleaned text\<close>

lemma last_dropWhile: "dropWhile P xs \<noteq> [] \<Longrightarrow> last (dropWhile P xs) = last xs"
  by (metis last_appendR takeWhile_dropWhile_id)

lemma strip_Nil_or_trimmed:
  "strip t = [] \<or> (\<not> is_space (hd (strip t)) \<and> \<not> is_space (last (strip t)))"
proof (cases "strip t = []")
  case True
  then show ?thesis by simp
next
  case False
  let ?v = "dropWhile is_space t"
  let ?w = "dropWhile is_space (rev ?v)"
  from False have w: "?w \<noteq> []" by (simp add: strip_def)
  have v: "?v \<noteq> []"
  proof
    assume a: "?v = []"
    have "?w = []" unfolding a by simp
    with w show False by contradiction
  qed
  have "last (strip t) = hd ?w"
    using w by (simp add: strip_def last_rev)
  then have l: "\<not> is_space (last (strip t))"
    using hd_dropWhile [OF w] by simp
  have "hd (strip t) = last ?w"
    using w by (simp add: strip_def hd_rev)
  also have "\<dots> = last (rev ?v)"
    using w by (rule last_dropWhile)
  also have "\<dots> = hd ?v"
    using v by (simp add: last_rev)
  finally have "\<not> is_space (hd (strip t))"
    using hd_dropWhile [OF v] by simp
  with l show ?thesis by simp
qed

lemma strip_id:
  assumes "r = [] \<or> (\<not> is_space (hd r) \<and> \<not> is_space (last r))"
  shows "strip r = r"
proof (cases r)
  case Nil
  then show ?thesis by (simp add: strip_def)
next
  case (Cons c cs)
  with assms have h: "\<not> is_space c" and l: "\<not> is_space (last r)" by simp_all
  from h Cons have 1: "dropWhile is_space r = r" by simp
  from Cons have "rev r \<noteq> []" by simp
  then obtain d ds where rr: "rev r = d # ds" by (cases "rev r") auto
  then have "d = last r"
    using Cons by (metis hd_rev list.sel(1) list.distinct(1))
  with l have nd: "\<not> is_space d" by simp
  have 2: "dropWhile is_space (rev r) = rev r"
    unfolding rr using nd by simp
  show ?thesis
    unfolding strip_def 1 2 by simp
qed

lemma set_strip: "set (strip t) \<subseteq> set t"
  by (auto simp: strip_def dest!: set_dropWhileD)

lemma successively_strip:
  assumes "successively neat_pair t"
  shows "successively neat_pair (strip t)"
proof -
  have "successively neat_pair (dropWhile is_space t)"
    using assms by (rule successively_dropWhile)
  then have "successively (\<lambda>x y. neat_pair y x) (rev (dropWhile is_space t))"
    by simp
  then have "successively neat_pair (rev (dropWhile is_space t))"
    using neat_pair_sym by (simp cong: successively_cong)
  then have "successively neat_pair (dropWhile is_space (rev (dropWhile is_space t)))"
    by (rule successively_dropWhile)
  then have "successively (\<lambda>x y. neat_pair y x) (strip t)"
    by (simp add: strip_def)
  then show ?thesis
    using neat_pair_sym by (simp cong: successively_cong)
qed

lemma replace_cp_absent: "a \<notin> set s \<Longrightarrow> replace_cp a b s = s"
  by (induction s) (auto simp: replace_cp_def)

lemma remove_cp_absent: "a \<notin> set s \<Longrightarrow> remove_cp a s = s"
  by (induction s) (auto simp: remove_cp_def)

lemma set_replace_cp: "a \<noteq> b \<Longrightarrow> set (replace_cp a b s) \<subseteq> insert b (set s - {a})"
  by (auto simp: replace_cp_def)

lemma set_remove_cp: "set (remove_cp a s) = set s - {a}"
  by (auto simp: remove_cp_def)

lemma clean_tail_direct:
  "clean_tail text
   = strip (sub_spaces (sub_hyphens
       (replace_cp 8212 45 (replace_cp 8221 34 (replace_cp 8220 34 text)))))"
  by (simp add: clean_tail_def Let_def re_sub_hyphen re_sub_Spaces)

lemma set_clean_tail:
  "set (clean_tail text) \<subseteq> (set text - {8220, 8221, 8212}) \<union> {32, 34, 45}"
proof -
  let ?a = "replace_cp 8220 34 text"
  let ?b = "replace_cp 8221 34 ?a"
  let ?c = "replace_cp 8212 45 ?b"
  have a: "set ?a \<subseteq> insert 34 (set text - {8220})"
    by (rule set_replace_cp) simp
  have b: "set ?b \<subseteq> insert 34 (set ?a - {8221})"
    by (rule set_replace_cp) simp
  have c: "set ?c \<subseteq> insert 45 (set ?b - {8212})"
    by (rule set_replace_cp) simp
  have "set (clean_tail text) \<subseteq> insert 32 (insert 45 (set ?c))"
    unfolding clean_tail_direct
    using set_strip [of "sub_spaces (sub_hyphens ?c)"] set_sub_spaces [of "sub_hyphens ?c"]
          set_sub_hyphens [of ?c]
    by blast
  with a b c show ?thesis by blast
qed

lemma cleaned_clean_tail:
  assumes "65279 \<notin> set text" and "8203 \<notin> set text"
  shows "cleaned (clean_tail text)"
proof -
  let ?c = "replace_cp 8212 45 (replace_cp 8221 34 (replace_cp 8220 34 text))"
  let ?s = "sub_spaces (sub_hyphens ?c)"
  have n: "successively neat_pair (clean_tail text)"
    unfolding clean_tail_direct
    by (intro successively_strip sub_spaces_neat sub_hyphens_hy)
  have p: "c = 32" if "c \<in> set (clean_tail text)" "is_space c" for c
  proof -
    from that(1) have "c \<in> set ?s"
      unfolding clean_tail_direct using set_strip by blast
    then show ?thesis using that(2) by (rule sub_spaces_plain)
  qed
  have q: "c \<noteq> 65279 \<and> c \<noteq> 8203 \<and> c \<noteq> 8220 \<and> c \<noteq> 8221 \<and> c \<noteq> 8212"
    if "c \<in> set (clean_tail text)" for c
    using that set_clean_tail [of "text"] assms by auto
  have e: "clean_tail text = [] \<or>
           (\<not> is_space (hd (clean_tail text)) \<and> \<not> is_space (last (clean_tail text)))"
    unfolding clean_tail_direct by (rule strip_Nil_or_trimmed)
  from n p q e show ?thesis
    unfolding cleaned_def list_all_iff by blast
qed

lemma space_160: "is_space 160"
  by (simp add: is_space_def)

lemma cleaned_clean_head: "cleaned r \<Longrightarrow> clean_head r = r"
proof -
  assume c: "cleaned r"
  then have "65279 \<notin> set r" "8203 \<notin> set r"
    unfolding cleaned_def list_all_iff by blast+
  moreover have "160 \<notin> set r"
  proof
    assume "160 \<in> set r"
    with c space_160 have "(160 :: nat) = 32"
      unfolding cleaned_def list_all_iff by blast
    then show False by simp
  qed
  ultimately show ?thesis
    by (simp add: clean_head_def remove_cp_absent replace_cp_absent)
qed

lemma neat_imp_hy: "neat_pair a b \<Longrightarrow> hy_pair a b"
  by (simp add: neat_pair_def hy_pair_def)

lemma cleaned_clean_tail_id: "cleaned r \<Longrightarrow> clean_tail r = r"
proof -
  assume c: "cleaned r"
  then have "8220 \<notin> set r" "8221 \<notin> set r" "8212 \<notin> set r"
    unfolding cleaned_def list_all_iff by blast+
  then have 1: "replace_cp 8212 45 (replace_cp 8221 34 (replace_cp 8220 34 r)) = r"
    by (simp add: replace_cp_absent)
  from c have n: "successively neat_pair r"
    by (simp add: cleaned_def)
  then have "successively hy_pair r"
    by (rule successively_mono) (rule neat_imp_hy)
  then have 2: "sub_hyphens r = r" by (rule sub_hyphens_id)
  have 3: "sub_spaces r = r"
    using n c unfolding cleaned_def list_all_iff by (intro sub_spaces_id) blast+
  have 4: "strip r = r"
    using c unfolding cleaned_def by (intro strip_id) blast
  show ?thesis
    by (simp only: clean_tail_direct 1 2 3 4)
qed

lemma clean_head_no_marks: "65279 \<notin> set (clean_head x) \<and> 8203 \<notin> set (clean_head x)"
  by (auto simp: clean_head_def replace_cp_def set_remove_cp)

lemma clean_text_cleaned:
  assumes "\<forall>s. 65279 \<notin> set s \<and> 8203 \<notin> set s \<longrightarrow>
               65279 \<notin> set (nfkc L s) \<and> 8203 \<notin> set (nfkc L s)"
  shows "cleaned (clean_text L x)"
proof -
  let ?n = "nfkc L (clean_head x)"
  have "65279 \<notin> set ?n \<and> 8203 \<notin> set ?n"
    using assms clean_head_no_marks [of x] by blast
  then have "cleaned (clean_tail ?n)"
    by (intro cleaned_clean_tail) simp_all
  then show ?thesis
    by (simp add: clean_text_def Let_def)
qed

text \<open>
  C6. Cleaning a cleaned text changes nothing: \<open>clean_text(clean_text(x)) == clean_text(x)\<close>
  for every text \<open>x\<close>. The Unicode normalisation is the library's; the theorem holds for
  every normaliser \<open>nfkc\<close> with the three properties of \<open>NFKC\<close> that \<open>clean_text\<close> rests
  on: it introduces neither U+FEFF nor U+200B, it is idempotent, and a text in normal form
  is still in normal form after the steps that follow the normalisation (they put nothing
  but a hyphen, a space or a straight quote next to a character, and none of these
  composes with a neighbour).
\<close>

theorem clean_text_idempotent:
  assumes "\<forall>s. 65279 \<notin> set s \<and> 8203 \<notin> set s \<longrightarrow>
               65279 \<notin> set (nfkc L s) \<and> 8203 \<notin> set (nfkc L s)"
    and "\<forall>s. nfkc L (nfkc L s) = nfkc L s"
    and "\<forall>s. nfkc L s = s \<longrightarrow> nfkc L (clean_tail s) = clean_tail s"
  shows "clean_text L (clean_text L x) = clean_text L x"
proof -
  let ?n = "nfkc L (clean_head x)"
  let ?r = "clean_tail ?n"
  have r: "clean_text L x = ?r"
    by (simp add: clean_text_def Let_def)
  have c: "cleaned ?r"
    using clean_text_cleaned [OF assms(1), of x] by (simp only: r)
  have "nfkc L ?n = ?n" using assms(2) by simp
  with assms(3) have "nfkc L ?r = ?r" by blast
  then have "clean_text L ?r = ?r"
    by (simp add: clean_text_def Let_def cleaned_clean_head [OF c] cleaned_clean_tail_id [OF c])
  then show ?thesis by (simp only: r)
qed

lemma clean_text_example:
  "clean_text (ascii_lib True) (py ''  a  -  b --c - - d   e-  '') = py ''a-b--c--d e-''"
  by code_simp

theorem clean_text_idempotent_witness:
  "clean_text (ascii_lib True) (py ''  a  -  b --c - - d   e-  '') = py ''a-b--c--d e-'' \<and>
   clean_text (ascii_lib True) (py ''a-b--c--d e-'') = py ''a-b--c--d e-''"
proof -
  have 1: "\<forall>s. 65279 \<notin> set s \<and> 8203 \<notin> set s \<longrightarrow>
               65279 \<notin> set (nfkc (ascii_lib True) s) \<and> 8203 \<notin> set (nfkc (ascii_lib True) s)"
    by (simp add: ascii_lib_def)
  have 2: "\<forall>s. nfkc (ascii_lib True) (nfkc (ascii_lib True) s) = nfkc (ascii_lib True) s"
    by (simp add: ascii_lib_def)
  have 3: "\<forall>s. nfkc (ascii_lib True) s = s \<longrightarrow>
               nfkc (ascii_lib True) (clean_tail s) = clean_tail s"
    by (simp add: ascii_lib_def)
  from clean_text_idempotent [OF 1 2 3, of "py ''  a  -  b --c - - d   e-  ''"]
  have "clean_text (ascii_lib True) (py ''a-b--c--d e-'') = py ''a-b--c--d e-''"
    by (simp only: clean_text_example)
  with clean_text_example show ?thesis by (rule conjI)
qed

end
